theory Spec2Isabelle
  imports Complex_Main "HOL-Library.Word" "HOL-Library.Product_Lexorder"
    "HOL-Library.Monad_Syntax" "HOL-Library.Char_ord"
begin

section \<open>Go integers\<close>

text \<open>
  The program is a Go command for Linux on amd64 (it links NVML through cgo), where
  \<^verbatim>\<open>int\<close> is a 64-bit two's complement integer. A Go \<^verbatim>\<open>int\<close> is modelled as an
  \<open>int\<close> in the range \<open>[-2^63, 2^63)\<close>; every addition, subtraction, negation and
  multiplication of the source is written with the wrap-around of the Go specification
  (signed overflow wraps, it does not panic). Comparisons and equality tests need no
  wrapping. \<^verbatim>\<open>int64\<close>, and so \<^verbatim>\<open>time.Duration\<close>, has the same range.
\<close>

definition is_int64 :: "int \<Rightarrow> bool" where
  "is_int64 x \<longleftrightarrow> - (2 ^ 63) \<le> x \<and> x < 2 ^ 63"

definition wrap64 :: "int \<Rightarrow> int" where
  "wrap64 x = (x + 2 ^ 63) mod 2 ^ 64 - 2 ^ 63"

definition add64 :: "int \<Rightarrow> int \<Rightarrow> int" where
  "add64 a b = wrap64 (a + b)"

definition sub64 :: "int \<Rightarrow> int \<Rightarrow> int" where
  "sub64 a b = wrap64 (a - b)"

definition neg64 :: "int \<Rightarrow> int" where
  "neg64 a = wrap64 (- a)"

definition mul64 :: "int \<Rightarrow> int \<Rightarrow> int" where
  "mul64 a b = wrap64 (a * b)"

text \<open>\<^verbatim>\<open>func abs(x int) int\<close>: \<^verbatim>\<open>if x < 0 { return -x }; return x\<close>.\<close>

definition abs_go :: "int \<Rightarrow> int" where
  "abs_go x = (if x < 0 then neg64 x else x)"

section \<open>Configuration\<close>

record TemperatureRange =
  MinTemperature :: int
  MaxTemperature :: int
  FanSpeed :: int
  Hysteresis :: int

record Config =
  TimeToUpdate :: int
  TemperatureRanges :: "TemperatureRange list"
  Curve :: bool

section \<open>Step policy\<close>

text \<open>
  \<^verbatim>\<open>getFanSpeedForTemperature\<close>: the \<^verbatim>\<open>for _, r := range ranges\<close> loop is the recursion
  over the list; both \<^verbatim>\<open>return\<close>s inside the loop leave it at the first range that
  contains \<open>temp\<close>.
\<close>

fun getFanSpeedForTemperature :: "int \<Rightarrow> int \<Rightarrow> int \<Rightarrow> TemperatureRange list \<Rightarrow> int" where
  "getFanSpeedForTemperature temp prevTemp prevSpeed [] = prevSpeed"
| "getFanSpeedForTemperature temp prevTemp prevSpeed (r # ranges) =
     (if temp > MinTemperature r \<and> temp \<le> MaxTemperature r then
        (if abs_go (sub64 temp prevTemp) \<ge> Hysteresis r \<or> prevSpeed \<noteq> FanSpeed r
         then FanSpeed r
         else prevSpeed)
      else getFanSpeedForTemperature temp prevTemp prevSpeed ranges)"

text \<open>The configuration of the README, used for the concrete checks.\<close>

definition readme_ranges :: "TemperatureRange list" where
  "readme_ranges =
    [\<lparr>MinTemperature = 0, MaxTemperature = 40, FanSpeed = 30, Hysteresis = 3\<rparr>,
     \<lparr>MinTemperature = 40, MaxTemperature = 60, FanSpeed = 40, Hysteresis = 3\<rparr>,
     \<lparr>MinTemperature = 60, MaxTemperature = 80, FanSpeed = 70, Hysteresis = 3\<rparr>,
     \<lparr>MinTemperature = 80, MaxTemperature = 100, FanSpeed = 100, Hysteresis = 3\<rparr>,
     \<lparr>MinTemperature = 100, MaxTemperature = 200, FanSpeed = 100, Hysteresis = 0\<rparr>]"

section \<open>Curve mode helpers (floor + setpoints + ceiling)\<close>

text \<open>
  The structs \<^verbatim>\<open>curvePoint\<close> and \<^verbatim>\<open>curveProfile\<close> keep the field names of the source; the
  parameter \<^verbatim>\<open>temp\<close> of the functions below is therefore written \<open>tempC\<close>, and the locals
  \<^verbatim>\<open>floor\<close> and \<^verbatim>\<open>last\<close> are written \<open>floorR\<close> and \<open>lastPt\<close>.
\<close>

record curvePoint =
  temp :: int
  speed :: int
  hyst :: int

record curveProfile =
  floorEndTemp :: int
  floorSpeed :: int
  floorHyst :: int
  points :: "curvePoint list"

definition clampInt :: "int \<Rightarrow> int \<Rightarrow> int \<Rightarrow> int" where
  "clampInt x lo hi = (if x < lo then lo else if x > hi then hi else x)"

text \<open>
  \<^verbatim>\<open>sort.SliceStable(s, less)\<close> of the Go library sorts \<open>s\<close> by \<open>less\<close> and keeps equal
  elements in their original order. It is modelled by insertion sort: each element is put
  in front of the first element of the sorted rest that is not \<open>less\<close> than it
  (\<open>lt\<close> is the \<open>less\<close> closure).
\<close>

fun insertStable :: "('a \<Rightarrow> 'a \<Rightarrow> bool) \<Rightarrow> 'a \<Rightarrow> 'a list \<Rightarrow> 'a list" where
  "insertStable lt x [] = [x]"
| "insertStable lt x (y # ys) =
     (if lt y x then y # insertStable lt x ys else x # y # ys)"

definition SliceStable :: "('a \<Rightarrow> 'a \<Rightarrow> bool) \<Rightarrow> 'a list \<Rightarrow> 'a list" where
  "SliceStable lt xs = foldr (insertStable lt) xs []"

text \<open>The two \<open>less\<close> closures of \<^verbatim>\<open>buildCurveProfileFromRanges\<close>.\<close>

definition rangeLess :: "TemperatureRange \<Rightarrow> TemperatureRange \<Rightarrow> bool" where
  "rangeLess ri rj =
     (if MinTemperature ri = MinTemperature rj then MaxTemperature ri < MaxTemperature rj
      else MinTemperature ri < MinTemperature rj)"

definition pointLess :: "curvePoint \<Rightarrow> curvePoint \<Rightarrow> bool" where
  "pointLess p q \<longleftrightarrow> temp p < temp q"

text \<open>
  The loop \<^verbatim>\<open>for _, p := range pts\<close> that fills \<^verbatim>\<open>dedup\<close>: the first argument is
  \<^verbatim>\<open>dedup\<close> so far, the second the points still to visit.
\<close>

fun dedupLoop :: "curvePoint list \<Rightarrow> curvePoint list \<Rightarrow> curvePoint list" where
  "dedupLoop dedup [] = dedup"
| "dedupLoop dedup (p # pts) =
     (if length dedup = 0 then dedupLoop (dedup @ [p]) pts
      else if temp (dedup ! (length dedup - 1)) = temp p
        then dedupLoop (dedup[length dedup - 1 := p]) pts
      else dedupLoop (dedup @ [p]) pts)"

definition zeroProfile :: curveProfile where
  "zeroProfile = \<lparr>floorEndTemp = 0, floorSpeed = 0, floorHyst = 0, points = []\<rparr>"

text \<open>
  \<^verbatim>\<open>buildCurveProfileFromRanges\<close> returns \<^verbatim>\<open>(prof, err)\<close>; on the error path \<open>prof\<close> is
  the zero value. \<open>rs ! 0\<close> is read only when \<open>ranges\<close>, and so \<open>rs\<close>, is not empty. The
  loop \<^verbatim>\<open>for i := 1; i < len(rs); i++\<close> appends one point per element of \<open>rs\<close> after the
  first.
\<close>

definition buildCurveProfileFromRanges ::
  "TemperatureRange list \<Rightarrow> curveProfile \<times> string option" where
  "buildCurveProfileFromRanges ranges =
     (if length ranges = 0 then (zeroProfile, Some ''no temperature_ranges provided'')
      else
        let rs = SliceStable rangeLess ranges;
            floorR = rs ! 0;
            pts = map (\<lambda>r. \<lparr>temp = MinTemperature r,
                             speed = clampInt (FanSpeed r) 0 100,
                             hyst = Hysteresis r\<rparr>) (drop 1 rs);
            pts' = SliceStable pointLess pts;
            dedup = dedupLoop [] pts'
        in (\<lparr>floorEndTemp = MaxTemperature floorR,
             floorSpeed = clampInt (FanSpeed floorR) 0 100,
             floorHyst = Hysteresis floorR,
             points = dedup\<rparr>, None))"

subsection \<open>The builder as the specification words it\<close>

text \<open>
  A second definition, written from section 4.3 of the specification and not from the
  code, to compare \<open>buildCurveProfileFromRanges\<close> with: stable-sort the ranges ascending
  by \<open>(minTemp, maxTemp)\<close> (\<open>sort_key\<close> is the stable sort of the library, the pairs are
  ordered lexicographically); the first range is the floor; every remaining range
  becomes a point; stable-sort the points by temperature; of points with equal
  temperature keep the last one.
\<close>

definition specClamp :: "int \<Rightarrow> int" where
  "specClamp x = max 0 (min 100 x)"

definition specPoint :: "TemperatureRange \<Rightarrow> curvePoint" where
  "specPoint r = \<lparr>temp = MinTemperature r, speed = specClamp (FanSpeed r), hyst = Hysteresis r\<rparr>"

fun keepLastOfEqualTemp :: "curvePoint list \<Rightarrow> curvePoint list" where
  "keepLastOfEqualTemp [] = []"
| "keepLastOfEqualTemp (p # ps) =
     (if temp p \<in> temp ` set ps then keepLastOfEqualTemp ps else p # keepLastOfEqualTemp ps)"

definition specCurveProfile :: "TemperatureRange list \<Rightarrow> curveProfile" where
  "specCurveProfile ranges =
     (let sortedRanges = sort_key (\<lambda>r. (MinTemperature r, MaxTemperature r)) ranges;
          floorRange = hd sortedRanges;
          setpoints = sort_key temp (map specPoint (tl sortedRanges))
      in \<lparr>floorEndTemp = MaxTemperature floorRange,
           floorSpeed = specClamp (FanSpeed floorRange),
           floorHyst = Hysteresis floorRange,
           points = keepLastOfEqualTemp setpoints\<rparr>)"

section \<open>float64 arithmetic\<close>

text \<open>
  The interpolation is computed in \<^verbatim>\<open>float64\<close>. A finite \<^verbatim>\<open>float64\<close> is modelled by the
  rational number it denotes, and every operation by the exact result rounded to the
  nearest number with a 53-bit significand, ties to even (IEEE 754 binary64, round to
  nearest even, as the amd64 SSE2 instructions compute it; the default build does not
  fuse the multiplication and the addition). The exponent is not bounded in the model:
  with 64-bit integer operands the quotient is 0 or at least \<open>2^-63\<close> in magnitude and
  no intermediate value exceeds \<open>2^128\<close>, so no operation of the program overflows,
  underflows or produces a NaN (the divisor is positive where the division is reached).
\<close>

fun ilog2 :: "nat \<Rightarrow> nat" where
  "ilog2 n = (if n < 2 then 0 else Suc (ilog2 (n div 2)))"

declare ilog2.simps [simp del]

definition pow2 :: "int \<Rightarrow> rat" where
  "pow2 e = (if 0 \<le> e then 2 ^ nat e else 1 / 2 ^ nat (- e))"

text \<open>For \<open>x > 0\<close>: the exponent \<open>e\<close> with \<open>2^e \<le> x < 2^(e+1)\<close>.\<close>

definition exponent_of :: "rat \<Rightarrow> int" where
  "exponent_of x =
     (if 1 \<le> x then int (ilog2 (nat \<lfloor>x\<rfloor>))
      else - int (ilog2 (nat (\<lceil>1 / x\<rceil> - 1))) - 1)"

definition round_half_even :: "rat \<Rightarrow> int" where
  "round_half_even x =
     (let f = \<lfloor>x\<rfloor>; d = x - of_int f
      in if d < 1 / 2 then f else if 1 / 2 < d then f + 1 else if even f then f else f + 1)"

definition round53 :: "rat \<Rightarrow> rat" where
  "round53 x =
     (if x = 0 then 0
      else let e = exponent_of \<bar>x\<bar> - 52
           in sgn x * of_int (round_half_even (\<bar>x\<bar> / pow2 e)) * pow2 e)"

text \<open>\<^verbatim>\<open>float64(n)\<close> for an \<^verbatim>\<open>int\<close>, and the operators \<^verbatim>\<open>/\<close>, \<^verbatim>\<open>*\<close>, \<^verbatim>\<open>+\<close> on \<^verbatim>\<open>float64\<close>.\<close>

definition float64 :: "int \<Rightarrow> rat" where
  "float64 n = round53 (of_int n)"

definition fdiv :: "rat \<Rightarrow> rat \<Rightarrow> rat" where
  "fdiv x y = round53 (x / y)"

definition fmul :: "rat \<Rightarrow> rat \<Rightarrow> rat" where
  "fmul x y = round53 (x * y)"

definition fadd :: "rat \<Rightarrow> rat \<Rightarrow> rat" where
  "fadd x y = round53 (x + y)"

text \<open>\<^verbatim>\<open>math.Round\<close>: the nearest integer, halves away from zero.\<close>

definition math_Round :: "rat \<Rightarrow> rat" where
  "math_Round x = (if x < 0 then - of_int \<lfloor>- x + 1 / 2\<rfloor> else of_int \<lfloor>x + 1 / 2\<rfloor>)"

text \<open>
  \<^verbatim>\<open>int(f)\<close> truncates towards zero. For a value outside the range of \<^verbatim>\<open>int\<close> the Go
  specification leaves the result to the implementation; on amd64 the conversion
  instruction yields the smallest integer, \<open>-2^63\<close>.
\<close>

definition int_of_float64 :: "rat \<Rightarrow> int" where
  "int_of_float64 x =
     (let z = (if x < 0 then \<lceil>x\<rceil> else \<lfloor>x\<rfloor>)
      in if is_int64 z then z else - (2 ^ 63))"

section \<open>Curve policy\<close>

text \<open>
  \<^verbatim>\<open>curveSpeedForTempWithProfile\<close> has seven \<^verbatim>\<open>return\<close> statements. The model returns,
  with the pair \<^verbatim>\<open>(speed, hysteresisUsed)\<close>, which of them was taken, so that statements
  about the reachability of a branch can be made; \<open>curveSpeedForTempWithProfile\<close> itself
  is the pair.
\<close>

datatype curveBranch =
  FloorClamp | NoSetpoints | FloorGap | CeilingClamp | DenGuard | Interpolated | Fallback

text \<open>
  The loop \<^verbatim>\<open>for i := 0; i < len(prof.points)-1; i++\<close> with \<open>a = points[i]\<close> and
  \<open>b = points[i+1]\<close>: the list argument is \<open>points[i:]\<close>. When fewer than two points are
  left the loop ends and the final \<^verbatim>\<open>return last.speed, last.hyst\<close> is taken.
\<close>

fun segmentLoop :: "int \<Rightarrow> curvePoint \<Rightarrow> curvePoint list \<Rightarrow> curveBranch \<times> int \<times> int" where
  "segmentLoop tempC lastPt (a # b # ps) =
     (if tempC \<ge> temp a \<and> tempC < temp b then
        (let den = sub64 (temp b) (temp a) in
         if den \<le> 0 then (DenGuard, speed a, hyst a)
         else
           let t = fdiv (float64 (sub64 tempC (temp a))) (float64 den);
               val = fadd (float64 (speed a)) (fmul t (float64 (sub64 (speed b) (speed a))));
               sp = int_of_float64 (math_Round val);
               sp' = clampInt sp 0 100
           in (Interpolated, sp', hyst a))
      else segmentLoop tempC lastPt (b # ps))"
| "segmentLoop tempC lastPt ps = (Fallback, speed lastPt, hyst lastPt)"

definition curveSpeedTraced :: "int \<Rightarrow> curveProfile \<Rightarrow> curveBranch \<times> int \<times> int" where
  "curveSpeedTraced tempC prof =
     (if tempC < floorEndTemp prof then (FloorClamp, floorSpeed prof, floorHyst prof)
      else if length (points prof) = 0 then (NoSetpoints, floorSpeed prof, floorHyst prof)
      else if tempC < temp (points prof ! 0) then (FloorGap, floorSpeed prof, floorHyst prof)
      else
        let lastPt = points prof ! (length (points prof) - 1) in
        if tempC \<ge> temp lastPt then (CeilingClamp, speed lastPt, hyst lastPt)
        else segmentLoop tempC lastPt (points prof))"

definition curveSpeedForTempWithProfile :: "int \<Rightarrow> curveProfile \<Rightarrow> int \<times> int" where
  "curveSpeedForTempWithProfile tempC prof = snd (curveSpeedTraced tempC prof)"

section \<open>The hardware collaborator\<close>

text \<open>
  NVML is outside the program. A device handle is identified with the device index it
  was obtained for. The calls that change the hardware are recorded in the order in
  which the program issues them; what NVML answers is an input of the model.
\<close>

datatype nvmlReturn = SUCCESS | ERROR_NOT_SUPPORTED | ERROR_UNKNOWN

datatype fanPolicy = FAN_POLICY_TEMPERATURE_CONTINOUS_SW | FAN_POLICY_MANUAL

datatype nvmlWrite =
  DeviceSetFanControlPolicy nat nat fanPolicy
| DeviceSetFanSpeed_v2 nat nat int

fun writeFan :: "nvmlWrite \<Rightarrow> nat" where
  "writeFan (DeviceSetFanControlPolicy device fanIdx policy) = fanIdx"
| "writeFan (DeviceSetFanSpeed_v2 device fanIdx percent) = fanIdx"

text \<open>
  The answers of NVML during one tick of the monitoring loop. Within one tick every call
  is made at most once per device and fan, so an answer is a function of the arguments.
  \<^verbatim>\<open>DeviceGetTemperature\<close> returns a \<^verbatim>\<open>uint32\<close>.
\<close>

record nvmlTick =
  DeviceGetHandleByIndex :: "nat \<Rightarrow> nvmlReturn"
  DeviceGetTemperature :: "nat \<Rightarrow> 32 word \<times> nvmlReturn"
  SetFanControlPolicyReturn :: "nat \<Rightarrow> nat \<Rightarrow> fanPolicy \<Rightarrow> nvmlReturn"
  SetFanSpeedReturn :: "nat \<Rightarrow> nat \<Rightarrow> int \<Rightarrow> nvmlReturn"

section \<open>The monitoring loop\<close>

text \<open>
  Reading and writing a slice element panics when the index is out of range; \<open>None\<close> is
  the panic.
\<close>

definition sliceGet :: "'a list \<Rightarrow> nat \<Rightarrow> 'a option" where
  "sliceGet xs i = (if i < length xs then Some (xs ! i) else None)"

definition sliceSet :: "'a list \<Rightarrow> nat \<Rightarrow> 'a \<Rightarrow> 'a list option" where
  "sliceSet xs i v = (if i < length xs then Some (xs[i := v]) else None)"

text \<open>
  The variables of \<^verbatim>\<open>runMonitoringLoop\<close> that the ticks change, and \<open>issued\<close>: the writes
  sent to NVML so far, oldest first.
\<close>

record loopState =
  prevTemps :: "int list"
  prevFanSpeeds :: "int list list"
  inAuto :: "bool list"
  lastFanChangeTemp :: "int list"
  issued :: "nvmlWrite list"

text \<open>
  A \<^verbatim>\<open>for\<close> loop over indices: \<open>forIndices body [0..<n] s\<close> runs \<open>body 0\<close>, ..., \<open>body (n - 1)\<close>
  on the state and stops at a panic.
\<close>

fun forIndices :: "(nat \<Rightarrow> 's \<Rightarrow> 's option) \<Rightarrow> nat list \<Rightarrow> 's \<Rightarrow> 's option" where
  "forIndices body [] s = Some s"
| "forIndices body (k # ks) s =
     (case body k s of None \<Rightarrow> None | Some s' \<Rightarrow> forIndices body ks s')"

text \<open>
  The body of the fan loop in AUTO: the policy write is issued for the fan; its return
  value is only logged.
\<close>

definition autoFanBody :: "nat \<Rightarrow> nat \<Rightarrow> loopState \<Rightarrow> loopState option" where
  "autoFanBody i fanIdx s =
     Some (s\<lparr>issued := issued s @
        [DeviceSetFanControlPolicy i fanIdx FAN_POLICY_TEMPERATURE_CONTINOUS_SW]\<rparr>)"

text \<open>
  The body of the fan loop in MANUAL; the second component of the state is
  \<^verbatim>\<open>anyFanUpdated\<close>. Each \<^verbatim>\<open>continue\<close> leaves the state as it is at that point.
\<close>

definition manualFanBody ::
  "nvmlTick \<Rightarrow> curveProfile \<Rightarrow> nat \<Rightarrow> int \<Rightarrow> nat \<Rightarrow> loopState \<times> bool \<Rightarrow> (loopState \<times> bool) option"
where
  "manualFanBody hw prof i tempInt fanIdx st =
     (case st of (s, anyFanUpdated) \<Rightarrow>
      do {
        row \<leftarrow> sliceGet (prevFanSpeeds s) i;
        prevSpeed \<leftarrow> sliceGet row fanIdx;
        case curveSpeedForTempWithProfile tempInt prof of (newFanSpeed, hystUsed) \<Rightarrow>
        if newFanSpeed = prevSpeed then Some (s, anyFanUpdated)
        else do {
          lastChange \<leftarrow> sliceGet (lastFanChangeTemp s) i;
          if abs_go (sub64 tempInt lastChange) < hystUsed then Some (s, anyFanUpdated)
          else
            let s1 = s\<lparr>issued := issued s @ [DeviceSetFanControlPolicy i fanIdx FAN_POLICY_MANUAL]\<rparr>
            in
            if SetFanControlPolicyReturn hw i fanIdx FAN_POLICY_MANUAL \<noteq> SUCCESS
            then Some (s1, anyFanUpdated)
            else
              let s2 = s1\<lparr>issued := issued s1 @ [DeviceSetFanSpeed_v2 i fanIdx newFanSpeed]\<rparr>
              in
              if SetFanSpeedReturn hw i fanIdx newFanSpeed \<noteq> SUCCESS
              then Some (s2, anyFanUpdated)
              else do {
                row' \<leftarrow> sliceSet row fanIdx newFanSpeed;
                rows \<leftarrow> sliceSet (prevFanSpeeds s2) i row';
                Some (s2\<lparr>prevFanSpeeds := rows\<rparr>, True)
              }
        }
      })"

text \<open>The body of the fan loop of the original step mode.\<close>

definition stepFanBody ::
  "nvmlTick \<Rightarrow> Config \<Rightarrow> nat \<Rightarrow> int \<Rightarrow> nat \<Rightarrow> loopState \<Rightarrow> loopState option"
where
  "stepFanBody hw config i tempInt fanIdx s =
     do {
       row \<leftarrow> sliceGet (prevFanSpeeds s) i;
       prevSpeed \<leftarrow> sliceGet row fanIdx;
       prevTemp \<leftarrow> sliceGet (prevTemps s) i;
       let newFanSpeed =
         getFanSpeedForTemperature tempInt prevTemp prevSpeed (TemperatureRanges config);
       if newFanSpeed = prevSpeed then Some s
       else
         let s1 = s\<lparr>issued := issued s @ [DeviceSetFanControlPolicy i fanIdx FAN_POLICY_MANUAL]\<rparr>
         in
         if SetFanControlPolicyReturn hw i fanIdx FAN_POLICY_MANUAL \<noteq> SUCCESS then Some s1
         else
           let s2 = s1\<lparr>issued := issued s1 @ [DeviceSetFanSpeed_v2 i fanIdx newFanSpeed]\<rparr>
           in
           if SetFanSpeedReturn hw i fanIdx newFanSpeed \<noteq> SUCCESS then Some s2
           else do {
             row' \<leftarrow> sliceSet row fanIdx newFanSpeed;
             rows \<leftarrow> sliceSet (prevFanSpeeds s2) i row';
             Some (s2\<lparr>prevFanSpeeds := rows\<rparr>)
           }
     }"

text \<open>
  The decision between AUTO and MANUAL at the head of the curve branch: the new value of
  \<^verbatim>\<open>inAuto[i]\<close>.
\<close>

definition decideAuto :: "curveProfile \<Rightarrow> bool \<Rightarrow> int \<Rightarrow> bool" where
  "decideAuto prof wasAuto tempInt =
     (if wasAuto then
        (if tempInt \<ge> add64 (floorEndTemp prof) (floorHyst prof) then False else wasAuto)
      else
        (if tempInt \<le> sub64 (floorEndTemp prof) (floorHyst prof) then True else wasAuto))"

text \<open>
  The body of \<^verbatim>\<open>for i := 0; i < count; i++\<close> inside the ticker loop, for device \<open>i\<close>.
  \<^verbatim>\<open>int(temp)\<close> of a \<^verbatim>\<open>uint32\<close> is its unsigned value.
\<close>

definition tickDevice ::
  "bool \<Rightarrow> curveProfile \<Rightarrow> Config \<Rightarrow> int list \<Rightarrow> nvmlTick \<Rightarrow> nat \<Rightarrow> loopState \<Rightarrow> loopState option"
where
  "tickDevice useCurve prof config fanCounts hw i s =
     do {
       fanCount \<leftarrow> sliceGet fanCounts i;
       if fanCount = 0 then Some s
       else if DeviceGetHandleByIndex hw i \<noteq> SUCCESS then Some s
       else if snd (DeviceGetTemperature hw i) \<noteq> SUCCESS then Some s
       else
         let tempInt = uint (fst (DeviceGetTemperature hw i)) in
         if useCurve then do {
           wasAuto \<leftarrow> sliceGet (inAuto s) i;
           modes \<leftarrow> sliceSet (inAuto s) i (decideAuto prof wasAuto tempInt);
           let s1 = s\<lparr>inAuto := modes\<rparr>;
           nowAuto \<leftarrow> sliceGet (inAuto s1) i;
           if nowAuto then do {
             s2 \<leftarrow> forIndices (autoFanBody i) [0..<nat fanCount] s1;
             changes \<leftarrow> sliceSet (lastFanChangeTemp s2) i tempInt;
             temps \<leftarrow> sliceSet (prevTemps s2) i tempInt;
             Some (s2\<lparr>lastFanChangeTemp := changes, prevTemps := temps\<rparr>)
           }
           else do {
             st \<leftarrow> forIndices (manualFanBody hw prof i tempInt) [0..<nat fanCount] (s1, False);
             changes \<leftarrow> (if snd st then sliceSet (lastFanChangeTemp (fst st)) i tempInt
                           else Some (lastFanChangeTemp (fst st)));
             temps \<leftarrow> sliceSet (prevTemps (fst st)) i tempInt;
             Some ((fst st)\<lparr>lastFanChangeTemp := changes, prevTemps := temps\<rparr>)
           }
         }
         else do {
           s1 \<leftarrow> forIndices (stepFanBody hw config i tempInt) [0..<nat fanCount] s;
           temps \<leftarrow> sliceSet (prevTemps s1) i tempInt;
           Some (s1\<lparr>prevTemps := temps\<rparr>)
         }
     }"


text \<open>
  Log output, one constructor per \<^verbatim>\<open>log.Printf\<close> or \<^verbatim>\<open>log.Println\<close> of the source with
  the arguments of its format string. The lines of \<^verbatim>\<open>loadConfiguration\<close>, of \<^verbatim>\<open>cmdDaemon\<close>
  and of the head of \<^verbatim>\<open>runMonitoringLoop\<close> are modelled.
\<close>

datatype logLine =
  INFO_Starting_monitoring_loop
| WARN_curve_mode_requested_but_invalid_curve_profile string
| INFO_Curve_mode_enabled int "curvePoint list" int
| WARN_time_to_update_is_invalid int
| WARN_temperature_ranges_is_empty
| INFO_Configuration_loaded_and_validated
| INFO_No_devices_with_controllable_fans
| FATAL string

text \<open>
  The ticker: \<^verbatim>\<open>time.Second\<close> is the \<^verbatim>\<open>time.Duration\<close> of \<open>10^9\<close> nanoseconds, and
  \<^verbatim>\<open>time.Duration(config.TimeToUpdate) * time.Second\<close> is a 64-bit product, which wraps.
  \<^verbatim>\<open>time.NewTicker(d)\<close> panics when \<open>d \<le> 0\<close> (\<open>None\<close>); otherwise the ticker ticks every
  \<open>d\<close> nanoseconds.
\<close>

definition time_Second :: int where
  "time_Second = 1000000000"

definition tickerInterval :: "Config \<Rightarrow> int" where
  "tickerInterval config = mul64 (TimeToUpdate config) time_Second"

definition NewTicker :: "int \<Rightarrow> int option" where
  "NewTicker d = (if d \<le> 0 then None else Some d)"

text \<open>
  \<^verbatim>\<open>runMonitoringLoop\<close> up to the ticker loop: \<^verbatim>\<open>useCurve\<close> (the policy of the run), \<^verbatim>\<open>prof\<close>,
  the state with the initial \<^verbatim>\<open>inAuto\<close> and \<^verbatim>\<open>lastFanChangeTemp\<close>, and the interval of the
  ticker. \<^verbatim>\<open>prevTemps[i]\<close> panics when \<^verbatim>\<open>prevTemps\<close> is shorter than \<open>count\<close>; \<^verbatim>\<open>copy\<close> copies
  as many elements as both slices have; then \<^verbatim>\<open>time.NewTicker\<close> panics on an interval that
  is not positive. The log lines are written before either panic.
\<close>

record monitorSetup =
  mUseCurve :: bool
  mProf :: curveProfile
  mState :: loopState
  mLogged :: "logLine list"
  mTicker :: int

definition setupMonitoring ::
  "Config \<Rightarrow> nat \<Rightarrow> int list \<Rightarrow> int list list \<Rightarrow> monitorSetup option"
where
  "setupMonitoring config count prevTemps0 prevFanSpeeds0 =
     (let log0 = [INFO_Starting_monitoring_loop];
          built = (if Curve config then buildCurveProfileFromRanges (TemperatureRanges config)
                   else (zeroProfile, None));
          useCurve1 = (Curve config \<and> snd built = None);
          log1 = (if Curve config then
                    (case snd built of
                       Some err \<Rightarrow>
                         [WARN_curve_mode_requested_but_invalid_curve_profile err]
                     | None \<Rightarrow>
                         [INFO_Curve_mode_enabled (floorEndTemp (fst built)) (points (fst built))
                            (floorHyst (fst built))])
                  else [])
      in if count \<le> length prevTemps0 then
           (case NewTicker (tickerInterval config) of
              None \<Rightarrow> None
            | Some d \<Rightarrow>
                Some \<lparr>mUseCurve = useCurve1,
                      mProf = fst built,
                      mState =
                        \<lparr>prevTemps = prevTemps0,
                         prevFanSpeeds = prevFanSpeeds0,
                         inAuto = map (\<lambda>i. prevTemps0 ! i < floorEndTemp (fst built)) [0..<count],
                         lastFanChangeTemp = take count prevTemps0,
                         issued = []\<rparr>,
                      mLogged = log0 @ log1,
                      mTicker = d\<rparr>)
         else None)"



text \<open>
  The state is well formed when every slice has \<open>count\<close> elements and a device has at
  least as many fan speeds as fans; \<^verbatim>\<open>initializeDevices\<close> allocates them so.
\<close>

definition wfLoop :: "nat \<Rightarrow> int list \<Rightarrow> loopState \<Rightarrow> bool" where
  "wfLoop count fanCounts s \<longleftrightarrow>
     length fanCounts = count \<and> length (prevTemps s) = count
     \<and> length (prevFanSpeeds s) = count \<and> length (inAuto s) = count
     \<and> length (lastFanChangeTemp s) = count
     \<and> list_all (\<lambda>i. nat (fanCounts ! i) \<le> length (prevFanSpeeds s ! i)) [0..<count]"

section \<open>The daemon command\<close>





section \<open>The command line\<close>

text \<open>
  \<^verbatim>\<open>main\<close> switches on \<^verbatim>\<open>os.Args[1]\<close>: it prints the usage and exits with code 2, or
  goes on with one of the four commands and the remaining arguments.
\<close>

datatype command =
  PrintUsageExit2
| CaseDaemon "string list"
| CaseStatus "string list"
| CaseSet "string list"
| CaseAuto "string list"

definition main_switch :: "string list \<Rightarrow> command" where
  "main_switch osArgs =
     (if length osArgs < 2 then PrintUsageExit2
      else if osArgs ! 1 = ''daemon'' then CaseDaemon (drop 2 osArgs)
      else if osArgs ! 1 = ''status'' then CaseStatus (drop 2 osArgs)
      else if osArgs ! 1 = ''set'' then CaseSet (drop 2 osArgs)
      else if osArgs ! 1 = ''auto'' then CaseAuto (drop 2 osArgs)
      else PrintUsageExit2)"

text \<open>
  \<^verbatim>\<open>strings.Split(s, ",")\<close>, and \<^verbatim>\<open>parseFanList\<close>. \<^verbatim>\<open>strings.TrimSpace\<close> and
  \<^verbatim>\<open>strconv.Atoi\<close> are library functions and parameters of the model (\<open>Inl\<close> is
  \<^verbatim>\<open>Atoi\<close>'s error).
\<close>

fun split_comma :: "string \<Rightarrow> string list" where
  "split_comma [] = [[]]"
| "split_comma (c # cs) =
     (if c = CHR '','' then [] # split_comma cs
      else (case split_comma cs of
              [] \<Rightarrow> [[c]]
            | part # parts \<Rightarrow> (c # part) # parts))"

datatype fanListError =
  Fans_list_is_empty
| Invalid_fan_index string string
| Fan_index_must_be_nonnegative int
| No_valid_fan_indices string

fun parseFanParts ::
  "(string \<Rightarrow> string) \<Rightarrow> (string \<Rightarrow> string + int) \<Rightarrow> string list \<Rightarrow> int list \<Rightarrow> fanListError + int list"
where
  "parseFanParts TrimSpace Atoi [] out = Inr out"
| "parseFanParts TrimSpace Atoi (p # parts) out =
     (let p' = TrimSpace p in
      if p' = [] then parseFanParts TrimSpace Atoi parts out
      else case Atoi p' of
             Inl err \<Rightarrow> Inl (Invalid_fan_index p' err)
           | Inr n \<Rightarrow>
               if n < 0 then Inl (Fan_index_must_be_nonnegative n)
               else parseFanParts TrimSpace Atoi parts (out @ [n]))"

definition parseFanList ::
  "(string \<Rightarrow> string) \<Rightarrow> (string \<Rightarrow> string + int) \<Rightarrow> string \<Rightarrow> fanListError + int list"
where
  "parseFanList TrimSpace Atoi s0 =
     (let s = TrimSpace s0 in
      if s = [] then Inl Fans_list_is_empty
      else case parseFanParts TrimSpace Atoi (split_comma s) [] of
             Inl err \<Rightarrow> Inl err
           | Inr out \<Rightarrow> if length out = 0 then Inl (No_valid_fan_indices s) else Inr out)"

text \<open>
  Every NVML call of the \<^verbatim>\<open>set\<close> command, and the answers of NVML to them. The loop over
  \<open>fans\<close> may address a fan twice, so the answers to its writes are indexed by the
  position in \<open>fans\<close>.
\<close>

datatype nvmlCall =
  Call_Init
| Call_Shutdown
| Call_DeviceGetCount
| Call_DeviceGetHandleByIndex int
| Call_DeviceGetNumFans int
| Call_DeviceSetFanControlPolicy int int fanPolicy
| Call_DeviceSetFanSpeed_v2 int int int

record nvmlCli =
  InitReturn :: nvmlReturn
  DeviceGetCountReturn :: "int \<times> nvmlReturn"
  HandleByIndexReturn :: "int \<Rightarrow> nvmlReturn"
  DeviceGetNumFansReturn :: "int \<Rightarrow> int \<times> nvmlReturn"
  CliSetPolicyReturn :: "nat \<Rightarrow> nvmlReturn"
  CliSetSpeedReturn :: "nat \<Rightarrow> nvmlReturn"

text \<open>
  The second loop of \<^verbatim>\<open>cmdSet\<close>: \<open>k\<close> is the position in \<open>fans\<close>; the result is the exit
  code and the calls made.
\<close>

fun setFansLoop :: "nvmlCli \<Rightarrow> int \<Rightarrow> int \<Rightarrow> nat \<Rightarrow> int list \<Rightarrow> int \<times> nvmlCall list" where
  "setFansLoop hw gpuIdx percent k [] = (0, [])"
| "setFansLoop hw gpuIdx percent k (fanIdx # fans) =
     (if CliSetPolicyReturn hw k \<noteq> SUCCESS
      then (1, [Call_DeviceSetFanControlPolicy gpuIdx fanIdx FAN_POLICY_MANUAL])
      else if CliSetSpeedReturn hw k \<noteq> SUCCESS
      then (1, [Call_DeviceSetFanControlPolicy gpuIdx fanIdx FAN_POLICY_MANUAL,
                Call_DeviceSetFanSpeed_v2 gpuIdx fanIdx percent])
      else
        (case setFansLoop hw gpuIdx percent (Suc k) fans of
           (code, calls) \<Rightarrow>
             (code, Call_DeviceSetFanControlPolicy gpuIdx fanIdx FAN_POLICY_MANUAL #
                    Call_DeviceSetFanSpeed_v2 gpuIdx fanIdx percent # calls)))"

text \<open>
  \<^verbatim>\<open>cmdSet\<close>: the exit code it returns and the NVML calls it makes, in order. The
  parameter \<^verbatim>\<open>speed\<close> is written \<open>percent\<close>. \<^verbatim>\<open>configureCLILogging\<close> only redirects the
  log output. After a successful \<^verbatim>\<open>nvml.Init\<close> the deferred \<open>cleanup\<close> calls
  \<^verbatim>\<open>nvml.Shutdown\<close> on every return.
\<close>

definition cmdSet :: "nvmlCli \<Rightarrow> int \<Rightarrow> int list \<Rightarrow> int \<Rightarrow> bool \<Rightarrow> int \<times> nvmlCall list" where
  "cmdSet hw gpuIdx fans percent verbose =
     (if percent < 0 \<or> percent > 100 then (1, [])
      else if InitReturn hw \<noteq> SUCCESS then (1, [Call_Init])
      else if snd (DeviceGetCountReturn hw) \<noteq> SUCCESS
        then (1, [Call_Init, Call_DeviceGetCount, Call_Shutdown])
      else if gpuIdx < 0 \<or> gpuIdx \<ge> fst (DeviceGetCountReturn hw)
        then (1, [Call_Init, Call_DeviceGetCount, Call_Shutdown])
      else if HandleByIndexReturn hw gpuIdx \<noteq> SUCCESS
        then (1, [Call_Init, Call_DeviceGetCount, Call_DeviceGetHandleByIndex gpuIdx,
                  Call_Shutdown])
      else if snd (DeviceGetNumFansReturn hw gpuIdx) \<noteq> SUCCESS
        then (1, [Call_Init, Call_DeviceGetCount, Call_DeviceGetHandleByIndex gpuIdx,
                  Call_DeviceGetNumFans gpuIdx, Call_Shutdown])
      else if list_ex (\<lambda>fanIdx. fanIdx < 0 \<or> fanIdx \<ge> fst (DeviceGetNumFansReturn hw gpuIdx)) fans
        then (1, [Call_Init, Call_DeviceGetCount, Call_DeviceGetHandleByIndex gpuIdx,
                  Call_DeviceGetNumFans gpuIdx, Call_Shutdown])
      else
        (case setFansLoop hw gpuIdx percent 0 fans of
           (code, calls) \<Rightarrow>
             (code, [Call_Init, Call_DeviceGetCount, Call_DeviceGetHandleByIndex gpuIdx,
                     Call_DeviceGetNumFans gpuIdx] @ calls @ [Call_Shutdown])))"

text \<open>
  The flags of the \<^verbatim>\<open>set\<close> command as the \<^verbatim>\<open>flag\<close> package parsed them (\<open>None\<close> when
  \<^verbatim>\<open>fs.Parse\<close> returns an error), and the \<^verbatim>\<open>case "set"\<close> branch of \<^verbatim>\<open>main\<close>: the exit code
  of the process and the NVML calls made.
\<close>

record setFlags =
  flag_gpu :: int
  flag_fans :: string
  flag_speed :: int
  flag_v :: bool

definition main_set ::
  "(string \<Rightarrow> string) \<Rightarrow> (string \<Rightarrow> string + int) \<Rightarrow> nvmlCli \<Rightarrow> setFlags option \<Rightarrow> int \<times> nvmlCall list"
where
  "main_set TrimSpace Atoi hw parsed =
     (case parsed of
        None \<Rightarrow> (2, [])
      | Some flags \<Rightarrow>
          if flag_speed flags < 0 then (2, [])
          else case parseFanList TrimSpace Atoi (flag_fans flags) of
                 Inl err \<Rightarrow> (2, [])
               | Inr fans \<Rightarrow> cmdSet hw (flag_gpu flags) fans (flag_speed flags) (flag_v flags))"

section \<open>Notions used to state the properties\<close>

definition speedOK :: "int \<Rightarrow> bool" where
  "speedOK s \<longleftrightarrow> 0 \<le> s \<and> s \<le> 100"

text \<open>
  A temperature in \<open>[-2^62, 2^62)\<close>: the difference of two such temperatures does not
  overflow a 64-bit integer.
\<close>

definition noOverflowTemp :: "int \<Rightarrow> bool" where
  "noOverflowTemp x \<longleftrightarrow> - (2 ^ 62) \<le> x \<and> x < 2 ^ 62"

text \<open>The first adjacent pair \<open>(a, b)\<close> of setpoints with \<open>a.temp \<le> t < b.temp\<close>.\<close>

definition firstSegment :: "int \<Rightarrow> curvePoint list \<Rightarrow> (curvePoint \<times> curvePoint) option" where
  "firstSegment t ps = List.find (\<lambda>(a, b). temp a \<le> t \<and> t < temp b) (zip ps (tl ps))"

text \<open>
  The interpolated speed between \<open>a\<close> and \<open>b\<close> as the program computes it: 64-bit
  integer differences, \<^verbatim>\<open>float64\<close> division, multiplication and addition,
  \<^verbatim>\<open>math.Round\<close>, conversion to \<^verbatim>\<open>int\<close>, clamp.
\<close>

definition floatInterpolation :: "int \<Rightarrow> curvePoint \<Rightarrow> curvePoint \<Rightarrow> int" where
  "floatInterpolation t a b =
     clampInt
       (int_of_float64 (math_Round
          (fadd (float64 (speed a))
             (fmul (fdiv (float64 (sub64 t (temp a))) (float64 (sub64 (temp b) (temp a))))
                   (float64 (sub64 (speed b) (speed a))))))) 0 100"

text \<open>
  The interpolation of section 4.4 of the specification in exact arithmetic:
  \<open>a.speed + (temp - a.temp) / (b.temp - a.temp) * (b.speed - a.speed)\<close>, then rounded
  (halves away from zero, or halves to even) and clamped.
\<close>

definition exactInterpolation :: "int \<Rightarrow> curvePoint \<Rightarrow> curvePoint \<Rightarrow> rat" where
  "exactInterpolation t a b =
     of_int (speed a) + of_int (t - temp a) / of_int (temp b - temp a) * of_int (speed b - speed a)"

definition roundHalfAway :: "rat \<Rightarrow> int" where
  "roundHalfAway x = (if x < 0 then - \<lfloor>- x + 1 / 2\<rfloor> else \<lfloor>x + 1 / 2\<rfloor>)"

definition specInterpolation :: "int \<Rightarrow> curvePoint \<Rightarrow> curvePoint \<Rightarrow> int" where
  "specInterpolation t a b = specClamp (roundHalfAway (exactInterpolation t a b))"

definition specInterpolationEven :: "int \<Rightarrow> curvePoint \<Rightarrow> curvePoint \<Rightarrow> int" where
  "specInterpolationEven t a b = specClamp (round_half_even (exactInterpolation t a b))"

text \<open>
  The writes that one fan receives in one tick, as a function of what the tick reads:
  in MANUAL from the last change temperature and the fan's previous speed, in step mode
  from the device's previous temperature and the fan's previous speed.
\<close>

definition manualFanWrites ::
  "nvmlTick \<Rightarrow> curveProfile \<Rightarrow> nat \<Rightarrow> int \<Rightarrow> int \<Rightarrow> int \<Rightarrow> nat \<Rightarrow> nvmlWrite list" where
  "manualFanWrites hw prof i tempInt lastChange prevSpeed fanIdx =
     (let target = fst (curveSpeedForTempWithProfile tempInt prof);
          hystUsed = snd (curveSpeedForTempWithProfile tempInt prof)
      in if target = prevSpeed \<or> abs_go (sub64 tempInt lastChange) < hystUsed then []
         else DeviceSetFanControlPolicy i fanIdx FAN_POLICY_MANUAL #
              (if SetFanControlPolicyReturn hw i fanIdx FAN_POLICY_MANUAL = SUCCESS
               then [DeviceSetFanSpeed_v2 i fanIdx target] else []))"


text \<open>
  Two states differ only in the fan speeds of device \<open>i\<close> and in the writes issued, and
  the speeds of the fans in \<open>later\<close> are the same.
\<close>

definition fanFrame :: "nat \<Rightarrow> nat set \<Rightarrow> loopState \<Rightarrow> loopState \<Rightarrow> bool" where
  "fanFrame i later s s' \<longleftrightarrow>
     prevTemps s' = prevTemps s \<and> inAuto s' = inAuto s
     \<and> lastFanChangeTemp s' = lastFanChangeTemp s
     \<and> length (prevFanSpeeds s') = length (prevFanSpeeds s)
     \<and> (\<forall>j < length (prevFanSpeeds s).
            length (prevFanSpeeds s' ! j) = length (prevFanSpeeds s ! j))
     \<and> (\<forall>f \<in> later. prevFanSpeeds s' ! i ! f = prevFanSpeeds s ! i ! f)"

section \<open>Concrete inputs\<close>

text \<open>The profile of the README's ranges.\<close>

definition readme_profile :: curveProfile where
  "readme_profile = fst (buildCurveProfileFromRanges readme_ranges)"

text \<open>A ramp from 0 percent at 40 degrees to 100 percent at 80 degrees.\<close>

definition ramp_ranges :: "TemperatureRange list" where
  "ramp_ranges =
    [\<lparr>MinTemperature = 0, MaxTemperature = 40, FanSpeed = 0, Hysteresis = 3\<rparr>,
     \<lparr>MinTemperature = 40, MaxTemperature = 80, FanSpeed = 0, Hysteresis = 3\<rparr>,
     \<lparr>MinTemperature = 80, MaxTemperature = 200, FanSpeed = 100, Hysteresis = 0\<rparr>]"

definition ramp_profile :: curveProfile where
  "ramp_profile = fst (buildCurveProfileFromRanges ramp_ranges)"

text \<open>Setpoints at \<open>-1\<close> and at the largest 64-bit integer.\<close>

definition overflow_ranges :: "TemperatureRange list" where
  "overflow_ranges =
    [\<lparr>MinTemperature = - 10, MaxTemperature = - 5, FanSpeed = 30, Hysteresis = 3\<rparr>,
     \<lparr>MinTemperature = - 1, MaxTemperature = 60, FanSpeed = 40, Hysteresis = 3\<rparr>,
     \<lparr>MinTemperature = 9223372036854775807, MaxTemperature = 9223372036854775807,
       FanSpeed = 100, Hysteresis = 0\<rparr>]"

definition overflow_profile :: curveProfile where
  "overflow_profile = fst (buildCurveProfileFromRanges overflow_ranges)"

text \<open>
  Ranges out of order, two ranges with the lowest \<open>minTemp\<close>, two setpoints at 40
  degrees and fan speeds outside \<open>[0,100]\<close>.
\<close>

definition tie_ranges :: "TemperatureRange list" where
  "tie_ranges =
    [\<lparr>MinTemperature = 40, MaxTemperature = 60, FanSpeed = 40, Hysteresis = 3\<rparr>,
     \<lparr>MinTemperature = 0, MaxTemperature = 40, FanSpeed = 30, Hysteresis = 3\<rparr>,
     \<lparr>MinTemperature = 40, MaxTemperature = 50, FanSpeed = 150, Hysteresis = 1\<rparr>,
     \<lparr>MinTemperature = 0, MaxTemperature = 30, FanSpeed = - 5, Hysteresis = 2\<rparr>]"

text \<open>NVML answers in which every call succeeds and the temperature is \<open>tempW\<close>.\<close>

definition allSucceed :: "32 word \<Rightarrow> nvmlTick" where
  "allSucceed tempW =
     \<lparr>DeviceGetHandleByIndex = (\<lambda>i. SUCCESS),
      DeviceGetTemperature = (\<lambda>i. (tempW, SUCCESS)),
      SetFanControlPolicyReturn = (\<lambda>i fanIdx policy. SUCCESS),
      SetFanSpeedReturn = (\<lambda>i fanIdx percent. SUCCESS)\<rparr>"

text \<open>
  The state of one device with one fan: its mode, its last temperature (also the last
  change temperature) and the fan's last speed.
\<close>

definition oneFanState :: "bool \<Rightarrow> int \<Rightarrow> int \<Rightarrow> loopState" where
  "oneFanState auto lastTemp lastSpeed =
     \<lparr>prevTemps = [lastTemp], prevFanSpeeds = [[lastSpeed]], inAuto = [auto],
      lastFanChangeTemp = [lastTemp], issued = []\<rparr>"

definition readme_config :: Config where
  "readme_config = \<lparr>TimeToUpdate = 5, TemperatureRanges = readme_ranges, Curve = True\<rparr>"





text \<open>
  A configuration whose floor range ends at the largest \<^verbatim>\<open>int\<close>, with hysteresis 1, and
  its profile.
\<close>

definition wide_floor_ranges :: "TemperatureRange list" where
  "wide_floor_ranges =
    [\<lparr>MinTemperature = 0, MaxTemperature = 9223372036854775807, FanSpeed = 30,
      Hysteresis = 1\<rparr>]"

definition wide_floor_config :: Config where
  "wide_floor_config = \<lparr>TimeToUpdate = 5, TemperatureRanges = wide_floor_ranges, Curve = True\<rparr>"

definition wide_floor_profile :: curveProfile where
  "wide_floor_profile = fst (buildCurveProfileFromRanges wide_floor_ranges)"

text \<open>
  For the command line: NVML answers of a machine with one device and two fans, and the
  two library functions on the strings used here (decimal digits without spaces).
\<close>

definition cli_ok :: nvmlCli where
  "cli_ok =
     \<lparr>InitReturn = SUCCESS, DeviceGetCountReturn = (1, SUCCESS),
      HandleByIndexReturn = (\<lambda>i. SUCCESS), DeviceGetNumFansReturn = (\<lambda>i. (2, SUCCESS)),
      CliSetPolicyReturn = (\<lambda>k. SUCCESS), CliSetSpeedReturn = (\<lambda>k. SUCCESS)\<rparr>"

definition trim_none :: "string \<Rightarrow> string" where
  "trim_none s = s"

definition digit_value :: "char \<Rightarrow> int" where
  "digit_value c = int (of_char c) - 48"

definition atoi_digits :: "string \<Rightarrow> string + int" where
  "atoi_digits s =
     (if s \<noteq> [] \<and> list_all (\<lambda>c. CHR ''0'' \<le> c \<and> c \<le> CHR ''9'') s
      then Inr (foldl (\<lambda>n c. 10 * n + digit_value c) 0 s)
      else Inl ''invalid syntax'')"

section \<open>Properties of the step policy\<close>

lemma wrap64_id: "is_int64 x \<Longrightarrow> wrap64 x = x"
  by (simp add: is_int64_def wrap64_def)

lemma is_int64_wrap64: "is_int64 (wrap64 x)"
proof -
  have "0 \<le> (x + 2 ^ 63) mod 2 ^ 64" and "(x + 2 ^ 63) mod 2 ^ 64 < (2 ^ 64 :: int)"
    by simp_all
  then show ?thesis
    by (simp add: is_int64_def wrap64_def)
qed

lemma step_match_returns_range_speed:
  "List.find (\<lambda>r. MinTemperature r < t \<and> t \<le> MaxTemperature r) ranges = Some r \<Longrightarrow>
   getFanSpeedForTemperature t prevTemp prevSpeed ranges = FanSpeed r"
  by (induction ranges) (auto split: if_splits)

text \<open>
  Claim C4. For every input \<open>(temp, prevTemp, prevSpeed, ranges)\<close> the step policy scans
  the ranges in the given order; the first range with \<open>minTemp < t \<le> maxTemp\<close> is
  the match. With a match it returns the range's fan speed when
  \<open>abs(temp - prevTemp) \<ge> hysteresis\<close> or \<open>prevSpeed \<noteq> fanSpeed\<close> and \<open>prevSpeed\<close>
  otherwise; when no range contains \<open>temp\<close> it returns \<open>prevSpeed\<close> unmodified. The
  subtraction and \<open>abs\<close> are the program's (wrapping) operations; the second conjunct
  shows that the same holds with the mathematical absolute difference.
\<close>

theorem getFanSpeedForTemperature_first_match:
  "getFanSpeedForTemperature t prevTemp prevSpeed ranges =
     (case List.find (\<lambda>r. MinTemperature r < t \<and> t \<le> MaxTemperature r) ranges of
        None \<Rightarrow> prevSpeed
      | Some r \<Rightarrow>
          if abs_go (sub64 t prevTemp) \<ge> Hysteresis r \<or> prevSpeed \<noteq> FanSpeed r
          then FanSpeed r else prevSpeed)
   \<and> getFanSpeedForTemperature t prevTemp prevSpeed ranges =
     (case List.find (\<lambda>r. MinTemperature r < t \<and> t \<le> MaxTemperature r) ranges of
        None \<Rightarrow> prevSpeed
      | Some r \<Rightarrow>
          if \<bar>t - prevTemp\<bar> \<ge> Hysteresis r \<or> prevSpeed \<noteq> FanSpeed r
          then FanSpeed r else prevSpeed)
   \<and> ((\<forall>r \<in> set ranges. \<not> (MinTemperature r < t \<and> t \<le> MaxTemperature r)) \<longrightarrow>
        getFanSpeedForTemperature t prevTemp prevSpeed ranges = prevSpeed)"
proof (induction ranges)
  case Nil
  show ?case by simp
next
  case (Cons r ranges)
  show ?case
  proof (cases "MinTemperature r < t \<and> t \<le> MaxTemperature r")
    case True
    then show ?thesis by auto
  next
    case False
    with Cons show ?thesis by auto
  qed
qed

theorem getFanSpeedForTemperature_first_match_witness:
  "getFanSpeedForTemperature 0 50 77 readme_ranges = 77"
proof -
  have none: "\<forall>r \<in> set readme_ranges. \<not> (MinTemperature r < 0 \<and> 0 \<le> MaxTemperature r)"
    by (simp add: readme_ranges_def)
  from getFanSpeedForTemperature_first_match [of 0 50 77 readme_ranges] none
  show ?thesis by blast
qed

section \<open>Properties of the curve profile builder\<close>

text \<open>\<open>SliceStable\<close> with a \<open>less\<close> that compares keys is the library's stable sort.\<close>


lemma insertStable_insort_key:
  fixes key :: "'a \<Rightarrow> 'k::linorder"
  assumes "\<And>x y. lt x y \<longleftrightarrow> key x < key y"
  shows "insertStable lt x ys = insort_key key x ys"
  by (induction ys) (auto simp: assms)

lemma SliceStable_sort_key:
  fixes key :: "'a \<Rightarrow> 'k::linorder"
  assumes "\<And>x y. lt x y \<longleftrightarrow> key x < key y"
  shows "SliceStable lt xs = sort_key key xs"
  by (induction xs) (simp_all add: SliceStable_def insertStable_insort_key [OF assms])

lemma rangeLess_key:
  "rangeLess x y \<longleftrightarrow> (MinTemperature x, MaxTemperature x) < (MinTemperature y, MaxTemperature y)"
  by (auto simp: rangeLess_def)

lemma pointLess_key: "pointLess x y \<longleftrightarrow> temp x < temp y"
  by (simp add: pointLess_def)

lemma clampInt_specClamp: "clampInt x 0 100 = specClamp x"
  by (simp add: clampInt_def specClamp_def)

lemma keepLast_distinct_id: "distinct (map temp ps) \<Longrightarrow> keepLastOfEqualTemp ps = ps"
  by (induction ps) auto

lemma keepLast_drop_shadowed:
  "temp q \<in> temp ` set ys \<Longrightarrow> keepLastOfEqualTemp (xs @ q # ys) = keepLastOfEqualTemp (xs @ ys)"
  by (induction xs) auto

lemma dedupLoop_keepLast:
  "sorted (map temp (acc @ ps)) \<Longrightarrow> distinct (map temp acc) \<Longrightarrow>
   dedupLoop acc ps = keepLastOfEqualTemp (acc @ ps)"
proof (induction ps arbitrary: acc)
  case Nil
  then show ?case by (simp add: keepLast_distinct_id)
next
  case (Cons p ps)
  show ?case
  proof (cases "acc = []")
    case True
    with Cons.IH [of "[p]"] Cons.prems show ?thesis by simp
  next
    case False
    then obtain bs b where acc: "acc = bs @ [b]"
      by (metis rev_exhaust)
    show ?thesis
    proof (cases "temp b = temp p")
      case True
      have 1: "dedupLoop acc (p # ps) = dedupLoop (bs @ [p]) ps"
        using True by (simp add: acc)
      have 2: "sorted (map temp ((bs @ [p]) @ ps))"
        using Cons.prems(1) True by (auto simp: acc sorted_append)
      have 3: "distinct (map temp (bs @ [p]))"
        using Cons.prems(2) True by (simp add: acc)
      have "keepLastOfEqualTemp (acc @ p # ps) = keepLastOfEqualTemp (bs @ p # ps)"
        using keepLast_drop_shadowed [of b "p # ps" bs] True by (simp add: acc)
      with 1 Cons.IH [OF 2 3] show ?thesis by simp
    next
      case False
      have 1: "dedupLoop acc (p # ps) = dedupLoop (acc @ [p]) ps"
        using False by (simp add: acc)
      have 2: "sorted (map temp ((acc @ [p]) @ ps))"
        using Cons.prems(1) by simp
      have le: "\<forall>x \<in> set bs. temp x \<le> temp b" and "temp b \<le> temp p"
        using Cons.prems(1) by (auto simp: acc sorted_append)
      with False Cons.prems(2) have 3: "distinct (map temp (acc @ [p]))"
        by (auto simp: acc)
      from 1 Cons.IH [OF 2 3] show ?thesis by simp
    qed
  qed
qed

lemma length_SliceStable: "length (SliceStable lt xs) = length xs"
proof -
  have "length (insertStable lt x ys) = Suc (length ys)" for x ys
    by (induction ys) auto
  then show ?thesis
    by (induction xs) (simp_all add: SliceStable_def)
qed


text \<open>
  Claim C2. For every non-empty list of ranges \<open>buildCurveProfileFromRanges\<close> returns no
  error and the profile of the specification: the ranges stable-sorted ascending by
  \<open>(minTemp, maxTemp)\<close>, the first sorted range as the floor (\<open>floorEndTemp\<close> its
  \<open>maxTemp\<close>, \<open>floorSpeed\<close> its fan speed clamped to \<open>[0,100]\<close>, \<open>floorHysteresis\<close> its
  hysteresis), every remaining range as a setpoint \<open>(minTemp, clamped fanSpeed,
  hysteresis)\<close>, the setpoints stable-sorted ascending by temperature, and of equal
  temperatures the last occurrence kept. On the ranges of the README it yields
  \<open>floorEndTemp = 40\<close>, \<open>floorSpeed = 30\<close>, \<open>floorHysteresis = 3\<close> and the setpoints
  \<open>[(40,40,3), (60,70,3), (80,100,3), (100,100,0)]\<close>.
\<close>

theorem buildCurveProfileFromRanges_refines_spec:
  "(ranges \<noteq> [] \<longrightarrow> buildCurveProfileFromRanges ranges = (specCurveProfile ranges, None))
   \<and> buildCurveProfileFromRanges readme_ranges =
       (\<lparr>floorEndTemp = 40, floorSpeed = 30, floorHyst = 3,
         points = [\<lparr>temp = 40, speed = 40, hyst = 3\<rparr>, \<lparr>temp = 60, speed = 70, hyst = 3\<rparr>,
                   \<lparr>temp = 80, speed = 100, hyst = 3\<rparr>, \<lparr>temp = 100, speed = 100, hyst = 0\<rparr>]\<rparr>,
        None)"
proof (intro conjI impI)
  assume nonempty: "ranges \<noteq> []"
  let ?rs = "sort_key (\<lambda>r. (MinTemperature r, MaxTemperature r)) ranges"
  have rs: "SliceStable rangeLess ranges = ?rs"
    by (rule SliceStable_sort_key) (rule rangeLess_key)
  have "?rs \<noteq> []"
    using nonempty by (metis length_sort length_0_conv)
  then have hd: "?rs ! 0 = hd ?rs"
    by (simp add: hd_conv_nth)
  have pt: "specPoint =
      (\<lambda>r. \<lparr>temp = MinTemperature r, speed = specClamp (FanSpeed r), hyst = Hysteresis r\<rparr>)"
    by (simp add: fun_eq_iff specPoint_def)
  have pts: "SliceStable pointLess xs = sort_key temp xs" for xs
    by (rule SliceStable_sort_key) (rule pointLess_key)
  have dd: "dedupLoop [] (sort_key temp xs) = keepLastOfEqualTemp (sort_key temp xs)" for xs
    using dedupLoop_keepLast [of "[]" "sort_key temp xs"] by simp
  show "buildCurveProfileFromRanges ranges = (specCurveProfile ranges, None)"
    using nonempty
    by (simp add: buildCurveProfileFromRanges_def specCurveProfile_def Let_def rs hd pts dd
        clampInt_specClamp drop_Suc pt)
next
  show "buildCurveProfileFromRanges readme_ranges =
       (\<lparr>floorEndTemp = 40, floorSpeed = 30, floorHyst = 3,
         points = [\<lparr>temp = 40, speed = 40, hyst = 3\<rparr>, \<lparr>temp = 60, speed = 70, hyst = 3\<rparr>,
                   \<lparr>temp = 80, speed = 100, hyst = 3\<rparr>, \<lparr>temp = 100, speed = 100, hyst = 0\<rparr>]\<rparr>,
        None)"
    by (simp add: buildCurveProfileFromRanges_def readme_ranges_def SliceStable_def
        rangeLess_def pointLess_def clampInt_def)
qed

theorem buildCurveProfileFromRanges_refines_spec_witness:
  "buildCurveProfileFromRanges tie_ranges =
     (\<lparr>floorEndTemp = 30, floorSpeed = 0, floorHyst = 2,
       points = [\<lparr>temp = 0, speed = 30, hyst = 3\<rparr>, \<lparr>temp = 40, speed = 40, hyst = 3\<rparr>]\<rparr>,
      None)"
proof -
  have nonempty: "tie_ranges \<noteq> []"
    by (simp add: tie_ranges_def)
  have "specCurveProfile tie_ranges =
     \<lparr>floorEndTemp = 30, floorSpeed = 0, floorHyst = 2,
       points = [\<lparr>temp = 0, speed = 30, hyst = 3\<rparr>, \<lparr>temp = 40, speed = 40, hyst = 3\<rparr>]\<rparr>"
    by (simp add: specCurveProfile_def tie_ranges_def specPoint_def specClamp_def)
  with buildCurveProfileFromRanges_refines_spec [of tie_ranges] nonempty
  show ?thesis by simp
qed

section \<open>Properties of the curve policy\<close>

subsection \<open>Speeds stay in the range of percentages\<close>

lemma set_insertStable: "set (insertStable lt x ys) = insert x (set ys)"
  by (induction ys) auto

lemma set_SliceStable: "set (SliceStable lt xs) = set xs"
  by (induction xs) (simp_all add: SliceStable_def set_insertStable)

lemma set_dedupLoop: "set (dedupLoop acc ps) \<subseteq> set acc \<union> set ps"
proof (induction ps arbitrary: acc)
  case Nil
  show ?case by simp
next
  case (Cons p ps)
  have "set (acc[length acc - 1 := p]) \<subseteq> insert p (set acc)"
    by (rule set_update_subset_insert)
  with Cons [of "acc @ [p]"] Cons [of "acc[length acc - 1 := p]"] show ?case
    by auto
qed

lemma built_points_subset:
  "set (points (fst (buildCurveProfileFromRanges ranges))) \<subseteq>
     (\<lambda>r. \<lparr>temp = MinTemperature r, speed = clampInt (FanSpeed r) 0 100, hyst = Hysteresis r\<rparr>) ` set ranges"
proof (cases "ranges = []")
  case True
  then show ?thesis by (simp add: buildCurveProfileFromRanges_def zeroProfile_def)
next
  case False
  have "set (drop 1 (SliceStable rangeLess ranges)) \<subseteq> set ranges"
    using set_drop_subset [of 1 "SliceStable rangeLess ranges"] by (simp add: set_SliceStable)
  then show ?thesis
    using False set_dedupLoop [of "[]"]
    by (fastforce simp: buildCurveProfileFromRanges_def Let_def set_SliceStable)
qed

lemma built_floorSpeed: "speedOK (floorSpeed (fst (buildCurveProfileFromRanges ranges)))"
  by (simp add: buildCurveProfileFromRanges_def zeroProfile_def Let_def speedOK_def clampInt_def)

lemma built_speeds:
  "p \<in> set (points (fst (buildCurveProfileFromRanges ranges))) \<Longrightarrow> speedOK (speed p)"
  using built_points_subset [of ranges] by (auto simp: speedOK_def clampInt_def)

lemma segmentLoop_speedOK:
  "speedOK (speed lastPt) \<Longrightarrow> \<forall>p \<in> set ps. speedOK (speed p) \<Longrightarrow>
   speedOK (fst (snd (segmentLoop t lastPt ps)))"
  by (induction t lastPt ps rule: segmentLoop.induct)
     (auto simp: Let_def speedOK_def clampInt_def)

lemma curveSpeedTraced_speedOK:
  assumes "speedOK (floorSpeed prof)" and "\<forall>p \<in> set (points prof). speedOK (speed p)"
  shows "speedOK (fst (snd (curveSpeedTraced t prof)))"
proof -
  have "points prof \<noteq> [] \<Longrightarrow> speedOK (speed (points prof ! (length (points prof) - 1)))"
    using assms(2) by simp
  with assms segmentLoop_speedOK [of "points prof ! (length (points prof) - 1)" "points prof" t]
  show ?thesis
    by (auto simp: curveSpeedTraced_def Let_def)
qed

text \<open>
  Claim C9. For every profile produced by \<open>buildCurveProfileFromRanges\<close> (also the zero
  profile of the error path) and every temperature, \<open>curveSpeedForTempWithProfile\<close>
  returns a speed in \<open>[0,100]\<close>, whatever the configured fan speeds are: the floor
  speed and every setpoint speed are clamped by the builder, and every interpolated
  result is clamped by the lookup.
\<close>

theorem curveSpeed_of_built_profile_in_range:
  "0 \<le> fst (curveSpeedForTempWithProfile t (fst (buildCurveProfileFromRanges ranges)))
   \<and> fst (curveSpeedForTempWithProfile t (fst (buildCurveProfileFromRanges ranges))) \<le> 100"
  using curveSpeedTraced_speedOK [of "fst (buildCurveProfileFromRanges ranges)" t]
    built_floorSpeed [of ranges] built_speeds [of _ ranges]
  by (simp add: curveSpeedForTempWithProfile_def speedOK_def)

subsection \<open>Strictly increasing setpoints and the reachable branches\<close>

lemma set_keepLast: "set (keepLastOfEqualTemp ps) \<subseteq> set ps"
  by (induction ps) auto

lemma keepLast_strict:
  "sorted (map temp ps) \<Longrightarrow> sorted_wrt (\<lambda>a b. temp a < temp b) (keepLastOfEqualTemp ps)"
proof (induction ps)
  case Nil
  show ?case by simp
next
  case (Cons p ps)
  then have IH: "sorted_wrt (\<lambda>a b. temp a < temp b) (keepLastOfEqualTemp ps)"
    and le: "\<forall>q \<in> set ps. temp p \<le> temp q"
    by auto
  show ?case
  proof (cases "temp p \<in> temp ` set ps")
    case True
    with IH show ?thesis by simp
  next
    case False
    with le have "\<forall>q \<in> set ps. temp p < temp q"
      by (metis image_eqI order_less_le)
    with set_keepLast [of ps] have "\<forall>q \<in> set (keepLastOfEqualTemp ps). temp p < temp q"
      by blast
    with False IH show ?thesis by simp
  qed
qed

lemma built_points_strict:
  "sorted_wrt (\<lambda>a b. temp a < temp b) (points (fst (buildCurveProfileFromRanges ranges)))"
proof (cases "ranges = []")
  case True
  then show ?thesis by (simp add: buildCurveProfileFromRanges_def zeroProfile_def)
next
  case False
  have pts: "SliceStable pointLess xs = sort_key temp xs" for xs
    by (rule SliceStable_sort_key) (rule pointLess_key)
  have "dedupLoop [] (sort_key temp xs) = keepLastOfEqualTemp (sort_key temp xs)" for xs
    using dedupLoop_keepLast [of "[]" "sort_key temp xs"] by simp
  moreover have "sorted_wrt (\<lambda>a b. temp a < temp b) (keepLastOfEqualTemp (sort_key temp xs))" for xs
    by (rule keepLast_strict) simp
  ultimately show ?thesis
    using False by (simp add: buildCurveProfileFromRanges_def Let_def pts)
qed

lemma segmentLoop_no_fallback:
  "ps \<noteq> [] \<Longrightarrow> temp (hd ps) \<le> t \<Longrightarrow> t < temp (last ps) \<Longrightarrow>
   fst (segmentLoop t lastPt ps) \<noteq> Fallback"
proof (induction t lastPt ps rule: segmentLoop.induct)
  case (1 tempC lastPt a b ps)
  then show ?case by (auto simp: Let_def)
qed simp_all

lemma curveSpeedTraced_no_fallback: "fst (curveSpeedTraced t prof) \<noteq> Fallback"
proof -
  have "fst (segmentLoop t lastPt (points prof)) \<noteq> Fallback"
    if "points prof \<noteq> []" "\<not> t < temp (points prof ! 0)"
       "\<not> temp (points prof ! (length (points prof) - 1)) \<le> t" for lastPt
    using that segmentLoop_no_fallback [of "points prof" t lastPt]
    by (simp add: hd_conv_nth last_conv_nth)
  then show ?thesis
    by (auto simp: curveSpeedTraced_def Let_def)
qed

lemma sub64_small: "noOverflowTemp a \<Longrightarrow> noOverflowTemp b \<Longrightarrow> sub64 b a = b - a"
  by (simp add: sub64_def noOverflowTemp_def wrap64_id is_int64_def)

lemma segmentLoop_no_denGuard:
  "\<forall>p \<in> set ps. noOverflowTemp (temp p) \<Longrightarrow> fst (segmentLoop t lastPt ps) \<noteq> DenGuard"
proof (induction t lastPt ps rule: segmentLoop.induct)
  case (1 tempC lastPt a b ps)
  then have "sub64 (temp b) (temp a) = temp b - temp a"
    by (simp add: sub64_small)
  with 1 show ?case by (auto simp: Let_def)
qed simp_all

lemma curveSpeedTraced_no_denGuard:
  "\<forall>p \<in> set (points prof). noOverflowTemp (temp p) \<Longrightarrow> fst (curveSpeedTraced t prof) \<noteq> DenGuard"
  using segmentLoop_no_denGuard [of "points prof" t]
  by (auto simp: curveSpeedTraced_def Let_def)

lemma built_temps_noOverflow:
  "\<forall>r \<in> set ranges. noOverflowTemp (MinTemperature r) \<Longrightarrow>
   \<forall>p \<in> set (points (fst (buildCurveProfileFromRanges ranges))). noOverflowTemp (temp p)"
  using built_points_subset [of ranges] by auto

lemma strict_adjacent_den_positive:
  assumes "sorted_wrt (\<lambda>a b. temp a < temp b) ps" and "\<forall>p \<in> set ps. noOverflowTemp (temp p)"
    and "Suc i < length ps"
  shows "0 < sub64 (temp (ps ! Suc i)) (temp (ps ! i))"
proof -
  have "temp (ps ! i) < temp (ps ! Suc i)"
    using assms(1,3) sorted_wrt_nth_less [of "\<lambda>a b. temp a < temp b" ps i "Suc i"] by simp
  moreover have "sub64 (temp (ps ! Suc i)) (temp (ps ! i)) = temp (ps ! Suc i) - temp (ps ! i)"
    using assms(2,3) by (simp add: sub64_small)
  ultimately show ?thesis by simp
qed

text \<open>
  Claim C10, as amended. For every profile produced by \<open>buildCurveProfileFromRanges\<close> the
  setpoint temperatures are strictly increasing, and the final fallback return of
  \<open>curveSpeedForTempWithProfile\<close> is unreachable. When every \<open>min_temperature\<close> lies in
  \<open>[-2^62, 2^62)\<close>, so that \<open>b.temp - a.temp\<close> cannot overflow, the denominator of every
  adjacent pair is strictly positive and the \<open>den \<le> 0\<close> guard is unreachable too.
\<close>

theorem built_profile_strict_and_unreachable_branches:
  "sorted_wrt (\<lambda>a b. temp a < temp b) (points (fst (buildCurveProfileFromRanges ranges)))
   \<and> fst (curveSpeedTraced t (fst (buildCurveProfileFromRanges ranges))) \<noteq> Fallback
   \<and> ((\<forall>r \<in> set ranges. noOverflowTemp (MinTemperature r)) \<longrightarrow>
        fst (curveSpeedTraced t (fst (buildCurveProfileFromRanges ranges))) \<noteq> DenGuard
        \<and> (\<forall>i. Suc i < length (points (fst (buildCurveProfileFromRanges ranges))) \<longrightarrow>
              0 < sub64 (temp (points (fst (buildCurveProfileFromRanges ranges)) ! Suc i))
                        (temp (points (fst (buildCurveProfileFromRanges ranges)) ! i))))"
proof (intro conjI impI allI)
  show "sorted_wrt (\<lambda>a b. temp a < temp b) (points (fst (buildCurveProfileFromRanges ranges)))"
    by (rule built_points_strict)
  show "fst (curveSpeedTraced t (fst (buildCurveProfileFromRanges ranges))) \<noteq> Fallback"
    by (rule curveSpeedTraced_no_fallback)
next
  assume "\<forall>r \<in> set ranges. noOverflowTemp (MinTemperature r)"
  then show "fst (curveSpeedTraced t (fst (buildCurveProfileFromRanges ranges))) \<noteq> DenGuard"
    by (intro curveSpeedTraced_no_denGuard built_temps_noOverflow)
next
  fix i
  assume "\<forall>r \<in> set ranges. noOverflowTemp (MinTemperature r)"
    and "Suc i < length (points (fst (buildCurveProfileFromRanges ranges)))"
  then show "0 < sub64 (temp (points (fst (buildCurveProfileFromRanges ranges)) ! Suc i))
                       (temp (points (fst (buildCurveProfileFromRanges ranges)) ! i))"
    by (intro strict_adjacent_den_positive built_points_strict built_temps_noOverflow)
qed

lemma readme_profile_value:
  "fst (buildCurveProfileFromRanges readme_ranges) =
     \<lparr>floorEndTemp = 40, floorSpeed = 30, floorHyst = 3,
       points = [\<lparr>temp = 40, speed = 40, hyst = 3\<rparr>, \<lparr>temp = 60, speed = 70, hyst = 3\<rparr>,
                 \<lparr>temp = 80, speed = 100, hyst = 3\<rparr>, \<lparr>temp = 100, speed = 100, hyst = 0\<rparr>]\<rparr>"
  by (simp add: buildCurveProfileFromRanges_def readme_ranges_def SliceStable_def
      rangeLess_def pointLess_def clampInt_def)

theorem built_profile_strict_and_unreachable_branches_witness:
  "list_all (\<lambda>r. noOverflowTemp (MinTemperature r)) readme_ranges
   \<and> fst (curveSpeedTraced 50 (fst (buildCurveProfileFromRanges readme_ranges))) \<noteq> DenGuard
   \<and> 0 < sub64 60 40"
proof -
  have small: "\<forall>r \<in> set readme_ranges. noOverflowTemp (MinTemperature r)"
    by (simp add: readme_ranges_def noOverflowTemp_def)
  note inst = built_profile_strict_and_unreachable_branches [of readme_ranges 50]
  from inst small
  have 1: "fst (curveSpeedTraced 50 (fst (buildCurveProfileFromRanges readme_ranges))) \<noteq> DenGuard"
    by blast
  from inst small
  have "Suc 0 < length (points (fst (buildCurveProfileFromRanges readme_ranges))) \<longrightarrow>
      0 < sub64 (temp (points (fst (buildCurveProfileFromRanges readme_ranges)) ! Suc 0))
                (temp (points (fst (buildCurveProfileFromRanges readme_ranges)) ! 0))"
    by blast
  then have 2: "0 < sub64 60 40"
    by (simp add: readme_profile_value)
  from small 1 2 show ?thesis
    by (simp add: list_all_iff)
qed

text \<open>
  The claim as stated fails: with setpoints at \<open>-1\<close> and at the largest 64-bit integer
  the temperatures are strictly increasing, but \<open>b.temp - a.temp\<close> wraps around to
  \<open>-2^63\<close> and a reading of 50 degrees takes the \<open>den \<le> 0\<close> branch.
\<close>

theorem den_guard_reachable_counterexample:
  "points overflow_profile =
     [\<lparr>temp = - 1, speed = 40, hyst = 3\<rparr>, \<lparr>temp = 9223372036854775807, speed = 100, hyst = 0\<rparr>]
   \<and> sub64 9223372036854775807 (- 1) = - 9223372036854775808
   \<and> curveSpeedTraced 50 overflow_profile = (DenGuard, 40, 3)"
  by (simp add: overflow_profile_def buildCurveProfileFromRanges_def overflow_ranges_def
      SliceStable_def rangeLess_def pointLess_def clampInt_def curveSpeedTraced_def
      sub64_def wrap64_def)

subsection \<open>The priority rules of the lookup\<close>

lemma segmentLoop_firstSegment:
  "segmentLoop t lastPt ps =
     (case firstSegment t ps of
        None \<Rightarrow> (Fallback, speed lastPt, hyst lastPt)
      | Some (a, b) \<Rightarrow>
          if sub64 (temp b) (temp a) \<le> 0 then (DenGuard, speed a, hyst a)
          else (Interpolated, floatInterpolation t a b, hyst a))"
  by (induction t lastPt ps rule: segmentLoop.induct)
     (simp_all add: firstSegment_def floatInterpolation_def Let_def)

lemma firstSegment_Some:
  "firstSegment t ps = Some (a, b) \<Longrightarrow> temp a \<le> t \<and> t < temp b"
  by (auto simp: firstSegment_def dest: find_Some_iff [THEN iffD1])

lemma firstSegment_exists:
  "ps \<noteq> [] \<Longrightarrow> temp (hd ps) \<le> t \<Longrightarrow> t < temp (last ps) \<Longrightarrow>
   \<exists>a b. firstSegment t ps = Some (a, b)"
  using segmentLoop_no_fallback [of ps t undefined]
  by (auto simp: segmentLoop_firstSegment split: option.splits)

lemma segment_unique:
  assumes "sorted_wrt (\<lambda>a b. temp a < temp b) ps"
    and "Suc i < length ps" "temp (ps ! i) \<le> t" "t < temp (ps ! Suc i)"
    and "Suc j < length ps" "temp (ps ! j) \<le> t" "t < temp (ps ! Suc j)"
  shows "i = j"
proof (rule ccontr)
  assume "i \<noteq> j"
  then consider "Suc i \<le> j" | "Suc j \<le> i" by linarith
  then show False
  proof cases
    case 1
    then have "temp (ps ! Suc i) \<le> temp (ps ! j)"
      using assms(1,5) sorted_wrt_nth_less [of "\<lambda>a b. temp a < temp b" ps "Suc i" j]
      by (cases "Suc i = j") auto
    with assms show False by linarith
  next
    case 2
    then have "temp (ps ! Suc j) \<le> temp (ps ! i)"
      using assms(1,2) sorted_wrt_nth_less [of "\<lambda>a b. temp a < temp b" ps "Suc j" i]
      by (cases "Suc j = i") auto
    with assms show False by linarith
  qed
qed

subsection \<open>The rounding error of float64\<close>

lemma ilog2_bounds: "1 \<le> n \<Longrightarrow> 2 ^ ilog2 n \<le> n \<and> n < 2 ^ Suc (ilog2 n)"
proof (induction n rule: ilog2.induct)
  case (1 n)
  show ?case
  proof (cases "n < 2")
    case True
    with "1.prems" have "n = 1" by simp
    then show ?thesis by (simp add: ilog2.simps)
  next
    case False
    then have "1 \<le> n div 2" by simp
    with "1.IH" False have IH: "2 ^ ilog2 (n div 2) \<le> n div 2" "n div 2 < 2 ^ Suc (ilog2 (n div 2))"
      by simp_all
    have eq: "ilog2 n = Suc (ilog2 (n div 2))"
      using False by (subst ilog2.simps) simp
    from IH(1) have "2 * 2 ^ ilog2 (n div 2) \<le> n" by linarith
    moreover from IH(2) have "n < 2 * 2 ^ Suc (ilog2 (n div 2))" by linarith
    ultimately show ?thesis by (simp add: eq)
  qed
qed

lemma pow2_pos: "0 < pow2 e"
  by (simp add: pow2_def)

lemma pow2_add_nat: "pow2 (e + int k) = pow2 e * 2 ^ k"
proof (cases "0 \<le> e")
  case True
  then show ?thesis
    by (simp add: pow2_def nat_add_distrib power_add)
next
  case False
  show ?thesis
  proof (cases "0 \<le> e + int k")
    case True
    with False have "k = nat (- e) + nat (e + int k)" by linarith
    then have "(2::rat) ^ k = 2 ^ nat (- e) * 2 ^ nat (e + int k)"
      by (metis power_add)
    with True False show ?thesis
      by (simp add: pow2_def)
  next
    case neg: False
    then have "nat (- e) = nat (- (e + int k)) + k" by linarith
    then have "(2::rat) ^ nat (- e) = 2 ^ nat (- (e + int k)) * 2 ^ k"
      by (metis power_add)
    with neg False show ?thesis
      by (simp add: pow2_def)
  qed
qed

lemma pow2_nat: "pow2 (int k) = 2 ^ k"
  by (simp add: pow2_def)

lemma pow2_neg_nat: "pow2 (- int k) = 1 / 2 ^ k"
  by (auto simp: pow2_def)

lemma exponent_of_bounds:
  assumes "0 < x"
  shows "pow2 (exponent_of x) \<le> x \<and> x < pow2 (exponent_of x + 1)"
proof (cases "1 \<le> x")
  case True
  let ?n = "nat \<lfloor>x\<rfloor>"
  let ?k = "ilog2 ?n"
  from True have n1: "1 \<le> ?n" by linarith
  note b = ilog2_bounds [OF n1]
  have nx: "of_nat ?n \<le> x" "x < of_nat ?n + 1"
    using True by (simp_all add: of_nat_nat) (linarith+)
  have e: "exponent_of x = int ?k"
    using True by (simp add: exponent_of_def)
  have "(of_nat (2 ^ ?k) :: rat) \<le> of_nat ?n"
    using b by (intro of_nat_mono) simp
  then have "(2::rat) ^ ?k \<le> of_nat ?n"
    by simp
  then have lo: "pow2 (int ?k) \<le> x"
    unfolding pow2_nat using nx(1) by (rule order_trans)
  have "?n + 1 \<le> 2 ^ Suc ?k" using b by simp
  then have "(of_nat (?n + 1) :: rat) \<le> of_nat (2 ^ Suc ?k)"
    by (rule of_nat_mono)
  then have "of_nat ?n + (1::rat) \<le> 2 ^ Suc ?k"
    by simp
  then have hi: "x < pow2 (int ?k + 1)"
    using nx pow2_add_nat [of "int ?k" 1] by (simp add: pow2_nat)
  from lo hi e show ?thesis by simp
next
  case False
  let ?n = "nat (\<lceil>1 / x\<rceil> - 1)"
  let ?k = "ilog2 ?n"
  from False assms have y1: "1 < 1 / x" by simp
  then have c2: "2 \<le> \<lceil>1 / x\<rceil>" by linarith
  then have n1: "1 \<le> ?n" by linarith
  note b = ilog2_bounds [OF n1]
  have nn: "0 \<le> \<lceil>1 / x\<rceil> - 1"
    using c2 by linarith
  have n_eq: "(of_nat ?n :: rat) = of_int (\<lceil>1 / x\<rceil> - 1)"
    by (rule of_nat_nat [OF nn])
  have ny: "of_nat ?n < 1 / x" "1 / x \<le> of_nat ?n + 1"
  proof -
    have "of_int (\<lceil>1 / x\<rceil> - 1) < 1 / x" by linarith
    then show "of_nat ?n < 1 / x" by (simp only: n_eq)
    have "1 / x \<le> of_int \<lceil>1 / x\<rceil>" by linarith
    then show "1 / x \<le> of_nat ?n + 1" by (simp add: n_eq)
  qed
  have e: "exponent_of x = - int ?k - 1"
    using False by (simp add: exponent_of_def)
  have "(of_nat (2 ^ ?k) :: rat) \<le> of_nat ?n"
    using b by (intro of_nat_mono) simp
  then have "(2::rat) ^ ?k \<le> of_nat ?n"
    by simp
  with ny have "2 ^ ?k < 1 / x" by linarith
  then have "x * 2 ^ ?k < 1"
    using assms by (simp add: field_simps)
  then have hi: "x < pow2 (- int ?k)"
    by (simp add: pow2_neg_nat field_simps)
  have "?n + 1 \<le> 2 ^ Suc ?k" using b by simp
  then have "(of_nat (?n + 1) :: rat) \<le> of_nat (2 ^ Suc ?k)"
    by (rule of_nat_mono)
  then have "of_nat ?n + (1::rat) \<le> 2 ^ Suc ?k"
    by simp
  with ny have "1 / x \<le> 2 ^ Suc ?k" by linarith
  then have "1 \<le> x * 2 ^ Suc ?k"
    using assms by (simp add: field_simps)
  then have lo: "pow2 (- int (Suc ?k)) \<le> x"
    unfolding pow2_neg_nat by (simp add: field_simps)
  have "- int (Suc ?k) = - int ?k - 1" by simp
  with lo have lo': "pow2 (- int ?k - 1) \<le> x" by (simp only:)
  from hi have "x < pow2 (- int ?k - 1 + 1)" by simp
  with lo' show ?thesis by (simp only: e)
qed

lemma round_half_even_close: "\<bar>of_int (round_half_even y) - y\<bar> \<le> 1 / 2"
proof -
  have "of_int \<lfloor>y\<rfloor> \<le> y" "y < of_int \<lfloor>y\<rfloor> + 1" by linarith+
  then show ?thesis
    by (auto simp: round_half_even_def Let_def)
qed

lemma round53_error:
  "\<bar>round53 x - x\<bar> \<le> \<bar>x\<bar> / 2 ^ 53"
proof (cases "x = 0")
  case True
  then show ?thesis by (simp add: round53_def)
next
  case False
  define e where "e = exponent_of \<bar>x\<bar> - 52"
  define s where "s = pow2 e"
  define m where "m = round_half_even (\<bar>x\<bar> / s)"
  have s0: "0 < s" by (simp add: s_def pow2_pos)
  have r: "round53 x = sgn x * of_int m * s"
    using False by (simp add: round53_def Let_def e_def s_def m_def)
  from False have "0 < \<bar>x\<bar>" by simp
  from exponent_of_bounds [OF this] have "pow2 (e + int 52) \<le> \<bar>x\<bar>"
    by (simp add: e_def)
  then have big: "s * 2 ^ 52 \<le> \<bar>x\<bar>"
    using pow2_add_nat [of e 52] by (simp add: s_def)
  have "\<bar>of_int m - \<bar>x\<bar> / s\<bar> \<le> 1 / 2"
    unfolding m_def by (rule round_half_even_close)
  then have "\<bar>of_int m - \<bar>x\<bar> / s\<bar> * s \<le> 1 / 2 * s"
    using s0 by (intro mult_right_mono) simp_all
  moreover have "\<bar>of_int m - \<bar>x\<bar> / s\<bar> * s = \<bar>of_int m * s - \<bar>x\<bar>\<bar>"
  proof -
    have "\<bar>of_int m - \<bar>x\<bar> / s\<bar> * s = \<bar>(of_int m - \<bar>x\<bar> / s) * s\<bar>"
      using s0 by (simp add: abs_mult)
    also have "(of_int m - \<bar>x\<bar> / s) * s = of_int m * s - \<bar>x\<bar>"
      using s0 by (simp add: field_simps)
    finally show ?thesis .
  qed
  ultimately have close: "\<bar>of_int m * s - \<bar>x\<bar>\<bar> \<le> s / 2" by simp
  have "\<bar>round53 x - x\<bar> = \<bar>of_int m * s - \<bar>x\<bar>\<bar>"
  proof (cases "0 < x")
    case True
    then show ?thesis by (simp add: r)
  next
    case neg: False
    with False have "x < 0" by simp
    then have "round53 x - x = - (of_int m * s - \<bar>x\<bar>)"
      by (simp add: r)
    then show ?thesis by (simp only: abs_minus_cancel)
  qed
  also have "\<dots> \<le> s / 2" by (rule close)
  also have "\<dots> \<le> \<bar>x\<bar> / 2 ^ 53"
    using big by (simp add: field_simps)
  finally show ?thesis .
qed

lemma round53_of_int:
  assumes "\<bar>n\<bar> < 2 ^ 53"
  shows "round53 (of_int n) = of_int n"
proof (cases "n = 0")
  case True
  then show ?thesis by (simp add: round53_def)
next
  case False
  let ?x = "of_int n :: rat"
  define k where "k = exponent_of \<bar>?x\<bar>"
  from False have pos: "0 < \<bar>?x\<bar>" by simp
  note b = exponent_of_bounds [OF pos, folded k_def]
  have "1 \<le> \<bar>n\<bar>"
    using False by linarith
  then have "(1::rat) \<le> of_int \<bar>n\<bar>"
    by (simp only: of_int_1_le_iff)
  then have "1 \<le> \<bar>?x\<bar>"
    by (simp only: of_int_abs)
  then have k0: "0 \<le> k"
    by (simp add: k_def exponent_of_def)
  have "pow2 k \<le> \<bar>?x\<bar>" using b by simp
  also have "\<bar>?x\<bar> < 2 ^ 53"
    using assms by (metis of_int_abs of_int_less_numeral_power_cancel_iff)
  finally have "pow2 k < 2 ^ 53" .
  with k0 have "(2::rat) ^ nat k < 2 ^ 53"
    by (simp add: pow2_def)
  from power_less_imp_less_exp [OF _ this] have "nat k < 53" by simp
  with k0 have k52: "k \<le> 52" by linarith
  define j where "j = nat (52 - k)"
  have e: "k - 52 = - int j"
    using k52 by (simp add: j_def)
  have "\<bar>?x\<bar> / pow2 (k - 52) = of_int (\<bar>n\<bar> * 2 ^ j)"
    by (simp add: e pow2_neg_nat)
  then have "round_half_even (\<bar>?x\<bar> / pow2 (k - 52)) = \<bar>n\<bar> * 2 ^ j"
    by (simp only: round_half_even_def Let_def floor_of_int) simp
  then have "round53 ?x = sgn ?x * of_int (\<bar>n\<bar> * 2 ^ j) * pow2 (- int j)"
    using False by (simp add: round53_def Let_def k_def [symmetric] e)
  also have "\<dots> = sgn ?x * \<bar>?x\<bar>"
    by (simp add: pow2_neg_nat)
  also have "\<dots> = ?x"
    by (simp add: sgn_mult_abs)
  finally show ?thesis .
qed


subsection \<open>The float64 interpolation against the exact one\<close>

lemma roundHalfAway_bounds:
  "x - 1 / 2 \<le> of_int (roundHalfAway x) \<and> of_int (roundHalfAway x) \<le> x + 1 / 2"
proof (cases "x < 0")
  case True
  have "of_int \<lfloor>- x + 1 / 2\<rfloor> \<le> - x + 1 / 2" "- x + 1 / 2 < of_int \<lfloor>- x + 1 / 2\<rfloor> + 1"
    by linarith+
  then have "x - 1 / 2 \<le> - of_int \<lfloor>- x + 1 / 2\<rfloor>" "- of_int \<lfloor>- x + 1 / 2\<rfloor> \<le> x + 1 / 2"
    by linarith+
  moreover have "roundHalfAway x = - \<lfloor>- x + 1 / 2\<rfloor>"
    using True by (simp add: roundHalfAway_def)
  ultimately show ?thesis
    by (simp only: of_int_minus simp_thms)
next
  case False
  have "of_int \<lfloor>x + 1 / 2\<rfloor> \<le> x + 1 / 2" "x + 1 / 2 < of_int \<lfloor>x + 1 / 2\<rfloor> + 1"
    by linarith+
  then have "x - 1 / 2 \<le> of_int \<lfloor>x + 1 / 2\<rfloor>" "of_int \<lfloor>x + 1 / 2\<rfloor> \<le> x + 1 / 2"
    by linarith+
  moreover have "roundHalfAway x = \<lfloor>x + 1 / 2\<rfloor>"
    using False by (simp add: roundHalfAway_def)
  ultimately show ?thesis
    by (simp only: simp_thms)
qed

lemma roundHalfAway_near:
  assumes "\<bar>x - y\<bar> < 1"
  shows "\<bar>roundHalfAway x - roundHalfAway y\<bar> \<le> 1"
proof -
  have "\<bar>(of_int (roundHalfAway x) :: rat) - of_int (roundHalfAway y)\<bar> < 2"
    using roundHalfAway_bounds [of x] roundHalfAway_bounds [of y] assms by linarith
  then have "(of_int \<bar>roundHalfAway x - roundHalfAway y\<bar> :: rat) < of_int 2"
    by simp
  then have "\<bar>roundHalfAway x - roundHalfAway y\<bar> < 2"
    by (simp only: of_int_less_iff)
  then show ?thesis by simp
qed

lemma roundHalfAway_inside:
  assumes "of_int k - 1 / 2 < x" "x < of_int k + 1 / 2"
  shows "roundHalfAway x = k"
proof (cases "x < 0")
  case True
  have "\<lfloor>- x + 1 / 2\<rfloor> = - k"
    using assms by (intro floor_unique) simp_all
  with True show ?thesis by (simp add: roundHalfAway_def)
next
  case False
  have "\<lfloor>x + 1 / 2\<rfloor> = k"
    using assms by (intro floor_unique) simp_all
  with False show ?thesis by (simp add: roundHalfAway_def)
qed

lemma math_Round_roundHalfAway: "math_Round x = of_int (roundHalfAway x)"
  by (simp add: math_Round_def roundHalfAway_def)

lemma int_of_float64_of_int: "is_int64 k \<Longrightarrow> int_of_float64 (of_int k) = k"
  by (simp add: int_of_float64_def)

lemma clampInt_near: "\<bar>clampInt x 0 100 - clampInt y 0 100\<bar> \<le> \<bar>x - y\<bar>"
  by (simp add: clampInt_def)

text \<open>
  The value that the program rounds, for setpoint speeds in \<open>[0,100]\<close> and a temperature
  difference below \<open>2^53\<close>: it is within \<open>2^-44\<close> of the exact interpolation.
\<close>

lemma float_value_close:
  fixes a d m den :: int
  assumes a: "0 \<le> a" "a \<le> 100" and d: "- 100 \<le> d" "d \<le> 100"
    and m: "0 \<le> m" "m < den" and den: "den < 2 ^ 53"
  shows "\<bar>fadd (float64 a) (fmul (fdiv (float64 m) (float64 den)) (float64 d))
           - (of_int a + of_int m / of_int den * of_int d)\<bar> \<le> 1 / 2 ^ 44"
proof -
  define u :: rat where "u = 1 / 2 ^ 53"
  define q :: rat where "q = of_int m / of_int den"
  define t' where "t' = round53 q"
  define p where "p = t' * of_int d"
  define p' where "p' = round53 p"
  define v where "v = of_int a + p'"
  define v' where "v' = round53 v"
  have conv: "float64 a = of_int a" "float64 m = of_int m" "float64 den = of_int den"
    "float64 d = of_int d"
  proof -
    show "float64 a = of_int a"
      unfolding float64_def using a by (intro round53_of_int) simp
    show "float64 m = of_int m"
      unfolding float64_def using m den by (intro round53_of_int) simp
    show "float64 den = of_int den"
      unfolding float64_def using m den by (intro round53_of_int) simp
    show "float64 d = of_int d"
      unfolding float64_def using d by (intro round53_of_int) simp
  qed
  have val: "fadd (float64 a) (fmul (fdiv (float64 m) (float64 den)) (float64 d)) = v'"
    by (simp add: conv fadd_def fmul_def fdiv_def v'_def v_def p'_def p_def t'_def q_def)
  have den0: "(0::rat) < of_int den"
    using m by simp
  have q01: "0 \<le> q" "q < 1"
    using m den0 by (simp_all add: q_def)
  have u0: "0 < u" "u \<le> 1" "300 * u \<le> 1"
    by (simp_all add: u_def)
  have dabs: "\<bar>of_int d :: rat\<bar> \<le> 100"
    using d by (simp add: abs_le_iff)
  have aabs: "\<bar>of_int a :: rat\<bar> \<le> 100"
    using a by simp
  have e1: "\<bar>t' - q\<bar> \<le> u"
  proof -
    have "\<bar>t' - q\<bar> \<le> \<bar>q\<bar> * u"
      using round53_error [of q] by (simp add: t'_def u_def)
    also have "\<dots> \<le> 1 * u"
      using q01 u0 by (intro mult_right_mono) simp_all
    finally show ?thesis by simp
  qed
  have tabs: "\<bar>t'\<bar> \<le> 2"
    using e1 q01 u0 by linarith
  have pabs: "\<bar>p\<bar> \<le> 200"
  proof -
    have "\<bar>p\<bar> = \<bar>t'\<bar> * \<bar>of_int d\<bar>" by (simp add: p_def abs_mult)
    also have "\<dots> \<le> 2 * 100"
      using tabs dabs by (intro mult_mono) simp_all
    finally show ?thesis by simp
  qed
  have e2: "\<bar>p' - p\<bar> \<le> 200 * u"
  proof -
    have "\<bar>p' - p\<bar> \<le> \<bar>p\<bar> * u"
      using round53_error [of p] by (simp add: p'_def u_def)
    also have "\<dots> \<le> 200 * u"
      using pabs u0 by (intro mult_right_mono) simp_all
    finally show ?thesis .
  qed
  have e3: "\<bar>p - q * of_int d\<bar> \<le> 100 * u"
  proof -
    have "\<bar>p - q * of_int d\<bar> = \<bar>t' - q\<bar> * \<bar>of_int d\<bar>"
      by (simp add: p_def abs_mult [symmetric] left_diff_distrib)
    also have "\<dots> \<le> u * 100"
      using e1 dabs by (intro mult_mono) simp_all
    finally show ?thesis by simp
  qed
  have qd: "\<bar>q * of_int d\<bar> \<le> 100"
  proof -
    have "\<bar>q * of_int d\<bar> = \<bar>q\<bar> * \<bar>of_int d\<bar>" by (simp add: abs_mult)
    also have "\<dots> \<le> 1 * 100"
      using q01 dabs by (intro mult_mono) simp_all
    finally show ?thesis by simp
  qed
  have e23: "\<bar>p' - q * of_int d\<bar> \<le> 300 * u"
    using e2 e3 by linarith
  have vabs: "\<bar>v\<bar> \<le> 201"
    unfolding v_def using e23 qd aabs u0 by linarith
  have e4: "\<bar>v' - v\<bar> \<le> 201 * u"
  proof -
    have "\<bar>v' - v\<bar> \<le> \<bar>v\<bar> * u"
      using round53_error [of v] by (simp add: v'_def u_def)
    also have "\<dots> \<le> 201 * u"
      using vabs u0 by (intro mult_right_mono) simp_all
    finally show ?thesis .
  qed
  have "\<bar>v' - (of_int a + q * of_int d)\<bar> \<le> 501 * u"
    unfolding v_def using e4 e23 unfolding v_def by linarith
  also have "\<dots> \<le> 1 / 2 ^ 44"
    by (simp add: u_def)
  finally show ?thesis
    by (simp add: val q_def)
qed


lemma half_frac: "x = of_int k + 1 / 2 \<Longrightarrow> frac (x::rat) = 1 / 2"
  by (simp add: frac_unique_iff)

text \<open>
  A fraction with denominator below \<open>2^43\<close> that is not half-way between two integers
  is further than \<open>2^-44\<close> from every such half: a value within \<open>2^-44\<close> of it rounds
  to the same integer.
\<close>

lemma roundHalfAway_stable:
  fixes n den :: int and x v :: rat
  assumes den: "0 < den" "den < 2 ^ 43"
    and x: "x = of_int n / of_int den"
    and nt: "frac x \<noteq> 1 / 2"
    and close: "\<bar>v - x\<bar> \<le> 1 / 2 ^ 44"
  shows "roundHalfAway v = roundHalfAway x"
proof -
  define k where "k = roundHalfAway x"
  define D :: rat where "D = of_int den"
  have D0: "0 < D"
    using den by (simp add: D_def)
  have xD: "x * D = of_int n"
    using D0 by (simp add: x D_def)
  have bounds: "of_int k - 1 / 2 \<le> x" "x \<le> of_int k + 1 / 2"
    using roundHalfAway_bounds [of x] by (simp_all add: k_def)
  have D43: "2 * D < 2 ^ 44"
  proof -
    have "(of_int den :: rat) < of_int (2 ^ 43)"
      using den by (simp only: of_int_less_iff)
    then show ?thesis by (simp add: D_def)
  qed
  have small: "1 / 2 ^ 44 < 1 / (2 * D)"
    using D0 D43 by (simp add: field_simps)
  have n2: "(of_int (2 * n) :: rat) = 2 * (x * D)"
    by (simp add: xD)
  have n21: "(of_int (2 * n + 1) :: rat) = 2 * (x * D) + 1"
    by (simp add: xD)
  have kd: "(of_int (j * den) :: rat) = of_int j * D" for j
    by (simp add: D_def)
  have kd1: "(of_int (j * den + 1) :: rat) = of_int j * D + 1" for j
    by (simp add: D_def)
  have cancel: "y = z" if "2 * (y * D) = 2 * (z * D)" for y z :: rat
    using that D0 by simp
  have upper: "x + 1 / (2 * D) \<le> of_int k + 1 / 2"
  proof -
    have "of_int (2 * n) = 2 * (x * D)"
      by (simp add: xD)
    also have "\<dots> \<le> 2 * ((of_int k + 1 / 2) * D)"
      using bounds D0 by (intro mult_left_mono mult_right_mono) simp_all
    also have "\<dots> = of_int ((2 * k + 1) * den)"
      by (simp add: D_def algebra_simps)
    finally have le: "2 * n \<le> (2 * k + 1) * den"
      by (simp only: of_int_le_iff)
    have "2 * n \<noteq> (2 * k + 1) * den"
    proof
      assume "2 * n = (2 * k + 1) * den"
      then have "(of_int (2 * n) :: rat) = of_int ((2 * k + 1) * den)"
        by (simp only:)
      then have "2 * (x * D) = of_int (2 * k + 1) * D"
        unfolding n2 kd .
      also have "\<dots> = 2 * ((of_int k + 1 / 2) * D)"
        by (simp add: algebra_simps)
      finally have "x = of_int k + 1 / 2"
        by (rule cancel)
      then show False
        using nt half_frac by blast
    qed
    with le have "2 * n + 1 \<le> (2 * k + 1) * den"
      by simp
    then have "(of_int (2 * n + 1) :: rat) \<le> of_int ((2 * k + 1) * den)"
      by (simp only: of_int_le_iff)
    then have "2 * (x * D) + 1 \<le> of_int (2 * k + 1) * D"
      unfolding n21 kd .
    then show ?thesis
      using D0 by (simp add: field_simps)
  qed
  have lower: "of_int k - 1 / 2 \<le> x - 1 / (2 * D)"
  proof -
    have "of_int ((2 * k - 1) * den) = 2 * ((of_int k - 1 / 2) * D)"
      by (simp add: D_def algebra_simps)
    also have "\<dots> \<le> 2 * (x * D)"
      using bounds D0 by (intro mult_left_mono mult_right_mono) simp_all
    also have "\<dots> = of_int (2 * n)"
      by (simp add: xD)
    finally have le: "(2 * k - 1) * den \<le> 2 * n"
      by (simp only: of_int_le_iff)
    have "2 * n \<noteq> (2 * k - 1) * den"
    proof
      assume "2 * n = (2 * k - 1) * den"
      then have "(of_int (2 * n) :: rat) = of_int ((2 * k - 1) * den)"
        by (simp only:)
      then have "2 * (x * D) = of_int (2 * k - 1) * D"
        unfolding n2 kd .
      also have "\<dots> = 2 * ((of_int (k - 1) + 1 / 2) * D)"
        by (simp add: algebra_simps)
      finally have "x = of_int (k - 1) + 1 / 2"
        by (rule cancel)
      then show False
        using nt half_frac by blast
    qed
    with le have "(2 * k - 1) * den + 1 \<le> 2 * n"
      by simp
    then have "(of_int ((2 * k - 1) * den + 1) :: rat) \<le> of_int (2 * n)"
      by (simp only: of_int_le_iff)
    then have "of_int (2 * k - 1) * D + 1 \<le> 2 * (x * D)"
      unfolding n2 kd1 .
    then show ?thesis
      using D0 by (simp add: field_simps)
  qed
  have "of_int k - 1 / 2 < v" "v < of_int k + 1 / 2"
    using upper lower small close by linarith+
  then have "roundHalfAway v = k"
    by (rule roundHalfAway_inside)
  then show ?thesis
    by (simp add: k_def)
qed

text \<open>
  The interpolated speed of the program is the clamp of the rounding of a value within
  \<open>2^-44\<close> of the exact interpolation.
\<close>

lemma floatInterpolation_as_round:
  assumes sp: "speedOK (speed a)" "speedOK (speed b)"
    and tm: "noOverflowTemp (temp a)" "noOverflowTemp (temp b)"
    and seg: "temp a \<le> t" "t < temp b"
    and den: "temp b - temp a < 2 ^ 53"
  shows "\<exists>v. floatInterpolation t a b = specClamp (roundHalfAway v)
           \<and> \<bar>v - exactInterpolation t a b\<bar> \<le> 1 / 2 ^ 44"
proof -
  define v where "v = fadd (float64 (speed a))
      (fmul (fdiv (float64 (t - temp a)) (float64 (temp b - temp a)))
            (float64 (speed b - speed a)))"
  define x where "x = exactInterpolation t a b"
  have tt: "noOverflowTemp t"
    using tm seg by (simp add: noOverflowTemp_def)
  have sps: "noOverflowTemp (speed a)" "noOverflowTemp (speed b)"
    using sp by (simp_all add: noOverflowTemp_def speedOK_def)
  have subs: "sub64 t (temp a) = t - temp a" "sub64 (temp b) (temp a) = temp b - temp a"
    "sub64 (speed b) (speed a) = speed b - speed a"
    using tt tm sps by (simp_all add: sub64_small)
  have close: "\<bar>v - x\<bar> \<le> 1 / 2 ^ 44"
    unfolding v_def x_def exactInterpolation_def
    using sp seg den by (intro float_value_close) (simp_all add: speedOK_def)
  have xabs: "\<bar>x\<bar> \<le> 200"
  proof -
    define q :: rat where "q = of_int (t - temp a) / of_int (temp b - temp a)"
    define d :: rat where "d = of_int (speed b - speed a)"
    have m: "0 \<le> (of_int (t - temp a) :: rat)"
      "(of_int (t - temp a) :: rat) < of_int (temp b - temp a)"
      using seg by simp_all
    have "0 \<le> q" "q \<le> 1"
      unfolding q_def using m by (simp_all only: divide_le_eq_1 zero_le_divide_iff) auto
    then have qabs: "\<bar>q\<bar> \<le> 1"
      by simp
    have dabs: "\<bar>d\<bar> \<le> 100"
      using sp by (simp add: d_def speedOK_def abs_le_iff)
    have "\<bar>q * d\<bar> = \<bar>q\<bar> * \<bar>d\<bar>"
      by (simp only: abs_mult)
    also have "\<dots> \<le> 1 * 100"
      using qabs dabs by (intro mult_mono) simp_all
    finally have "\<bar>q * d\<bar> \<le> 100"
      by simp
    moreover have "\<bar>of_int (speed a) :: rat\<bar> \<le> 100"
      using sp by (simp add: speedOK_def)
    moreover have "x = of_int (speed a) + q * d"
      by (simp only: x_def exactInterpolation_def q_def d_def)
    ultimately show ?thesis
      by linarith
  qed
  have rb: "\<bar>of_int (roundHalfAway v) :: rat\<bar> \<le> 202"
  proof -
    have "\<bar>v - x\<bar> \<le> 1"
      using close by simp
    with roundHalfAway_bounds [of v] xabs show ?thesis
      by linarith
  qed
  then have "(of_int \<bar>roundHalfAway v\<bar> :: rat) \<le> of_int 202"
    by simp
  then have "\<bar>roundHalfAway v\<bar> \<le> 202"
    by (simp only: of_int_le_iff)
  then have i64: "is_int64 (roundHalfAway v)"
    unfolding is_int64_def by simp linarith
  have "floatInterpolation t a b = clampInt (int_of_float64 (math_Round v)) 0 100"
    by (simp add: floatInterpolation_def subs v_def)
  also have "\<dots> = specClamp (roundHalfAway v)"
    by (simp add: math_Round_roundHalfAway int_of_float64_of_int [OF i64] clampInt_specClamp)
  finally show ?thesis
    using close by (auto simp: x_def)
qed

text \<open>
  For setpoint speeds in \<open>[0,100]\<close> and a temperature difference below \<open>2^53\<close> the
  program's interpolated speed is within one of the exactly rounded one.
\<close>

lemma floatInterpolation_within_one:
  assumes "speedOK (speed a)" "speedOK (speed b)"
    and "noOverflowTemp (temp a)" "noOverflowTemp (temp b)"
    and "temp a \<le> t" "t < temp b"
    and "temp b - temp a < 2 ^ 53"
  shows "\<bar>floatInterpolation t a b - specInterpolation t a b\<bar> \<le> 1"
proof -
  obtain v where v: "floatInterpolation t a b = specClamp (roundHalfAway v)"
      "\<bar>v - exactInterpolation t a b\<bar> \<le> 1 / 2 ^ 44"
    using floatInterpolation_as_round [OF assms] by blast
  have "\<bar>v - exactInterpolation t a b\<bar> < 1"
    using v(2) by simp
  then have "\<bar>roundHalfAway v - roundHalfAway (exactInterpolation t a b)\<bar> \<le> 1"
    by (rule roundHalfAway_near)
  moreover have "\<bar>specClamp (roundHalfAway v) - specClamp (roundHalfAway (exactInterpolation t a b))\<bar>
      \<le> \<bar>roundHalfAway v - roundHalfAway (exactInterpolation t a b)\<bar>"
    using clampInt_near by (simp only: clampInt_specClamp [symmetric])
  ultimately show ?thesis
    by (simp add: v(1) specInterpolation_def)
qed

text \<open>
  When moreover the temperature difference is below \<open>2^43\<close> and the exact value is not
  half-way between two integers, the two speeds are equal.
\<close>

lemma floatInterpolation_exact_off_ties:
  assumes "speedOK (speed a)" "speedOK (speed b)"
    and "noOverflowTemp (temp a)" "noOverflowTemp (temp b)"
    and "temp a \<le> t" "t < temp b"
    and den: "temp b - temp a < 2 ^ 43"
    and nt: "frac (exactInterpolation t a b) \<noteq> 1 / 2"
  shows "floatInterpolation t a b = specInterpolation t a b"
proof -
  have "temp b - temp a < 2 ^ 53"
    using den by simp
  from floatInterpolation_as_round [OF assms(1-6) this]
  obtain v where v: "floatInterpolation t a b = specClamp (roundHalfAway v)"
      "\<bar>v - exactInterpolation t a b\<bar> \<le> 1 / 2 ^ 44"
    by blast
  have pos: "0 < temp b - temp a"
    using assms(5,6) by simp
  have "exactInterpolation t a b
      = of_int (speed a * (temp b - temp a) + (t - temp a) * (speed b - speed a))
        / of_int (temp b - temp a)"
    using pos by (simp add: exactInterpolation_def field_simps)
  from roundHalfAway_stable [OF pos den this nt v(2)]
  show ?thesis
    by (simp add: v(1) specInterpolation_def)
qed

text \<open>
  Claim C1, as amended. For every curve profile and every temperature
  \<open>curveSpeedForTempWithProfile\<close> returns: the floor speed and floor hysteresis when
  \<open>temp < floorEndTemp\<close>, or when there are no setpoints, or when \<open>temp\<close> is below the first
  setpoint's temperature; the last setpoint's speed and hysteresis when \<open>temp\<close> is at
  least the last setpoint's temperature; otherwise an adjacent pair \<open>(a, b)\<close> with
  \<open>a.temp \<le> temp < b.temp\<close> exists (it is the only one when the temperatures are
  strictly increasing), and for the first such pair the hysteresis is \<open>a.hysteresis\<close> and
  the speed is the interpolation between \<open>a\<close> and \<open>b\<close> evaluated in \<^verbatim>\<open>float64\<close>
  arithmetic, rounded by \<^verbatim>\<open>math.Round\<close> and clamped to \<open>[0,100]\<close>, provided the 64-bit
  difference \<open>b.temp - a.temp\<close> is positive (it is whenever it does not overflow;
  otherwise \<open>a.speed\<close> is returned). For setpoint speeds in \<open>[0,100]\<close> (the builder
  produces no other), setpoint temperatures in \<open>[-2^62, 2^62)\<close> and
  \<open>b.temp - a.temp < 2^43\<close>, that speed is within one of the interpolation evaluated
  exactly, rounded and clamped, and equal to it unless the exact value is half-way
  between two integers. On the profile of the README,
  \<open>speedAt(50) = 55\<close>, \<open>speedAt(39) = 30\<close> and \<open>speedAt(150) = 100\<close>.
\<close>

theorem curveSpeedForTempWithProfile_rules:
  "curveSpeedForTempWithProfile t prof =
     (if t < floorEndTemp prof \<or> points prof = [] \<or> t < temp (hd (points prof))
        then (floorSpeed prof, floorHyst prof)
      else if temp (last (points prof)) \<le> t
        then (speed (last (points prof)), hyst (last (points prof)))
      else case firstSegment t (points prof) of
          Some (a, b) \<Rightarrow>
            if 0 < sub64 (temp b) (temp a) then (floatInterpolation t a b, hyst a)
            else (speed a, hyst a)
        | None \<Rightarrow> (speed (last (points prof)), hyst (last (points prof))))
   \<and> (points prof \<noteq> [] \<and> temp (hd (points prof)) \<le> t \<and> t < temp (last (points prof)) \<longrightarrow>
        (\<exists>a b. firstSegment t (points prof) = Some (a, b) \<and> temp a \<le> t \<and> t < temp b
           \<and> (noOverflowTemp (temp a) \<and> noOverflowTemp (temp b) \<longrightarrow> 0 < sub64 (temp b) (temp a))))
   \<and> (sorted_wrt (\<lambda>a b. temp a < temp b) (points prof) \<longrightarrow>
        (\<forall>i j. Suc i < length (points prof) \<and> temp (points prof ! i) \<le> t
                  \<and> t < temp (points prof ! Suc i)
              \<and> Suc j < length (points prof) \<and> temp (points prof ! j) \<le> t
                  \<and> t < temp (points prof ! Suc j) \<longrightarrow> i = j))
   \<and> (speedOK (speed a) \<and> speedOK (speed b)
        \<and> noOverflowTemp (temp a) \<and> noOverflowTemp (temp b)
        \<and> temp a \<le> t \<and> t < temp b \<and> temp b - temp a < 2 ^ 43 \<longrightarrow>
        \<bar>floatInterpolation t a b - specInterpolation t a b\<bar> \<le> 1
        \<and> (frac (exactInterpolation t a b) \<noteq> 1 / 2 \<longrightarrow>
             floatInterpolation t a b = specInterpolation t a b))
   \<and> curveSpeedForTempWithProfile 50 readme_profile = (55, 3)
   \<and> curveSpeedForTempWithProfile 39 readme_profile = (30, 3)
   \<and> curveSpeedForTempWithProfile 150 readme_profile = (100, 0)"
proof (intro conjI)
  show "curveSpeedForTempWithProfile t prof =
     (if t < floorEndTemp prof \<or> points prof = [] \<or> t < temp (hd (points prof))
        then (floorSpeed prof, floorHyst prof)
      else if temp (last (points prof)) \<le> t
        then (speed (last (points prof)), hyst (last (points prof)))
      else case firstSegment t (points prof) of
          Some (a, b) \<Rightarrow>
            if 0 < sub64 (temp b) (temp a) then (floatInterpolation t a b, hyst a)
            else (speed a, hyst a)
        | None \<Rightarrow> (speed (last (points prof)), hyst (last (points prof))))"
    by (auto simp: curveSpeedForTempWithProfile_def curveSpeedTraced_def Let_def
        segmentLoop_firstSegment hd_conv_nth last_conv_nth split: option.splits)
next
  show "points prof \<noteq> [] \<and> temp (hd (points prof)) \<le> t \<and> t < temp (last (points prof)) \<longrightarrow>
        (\<exists>a b. firstSegment t (points prof) = Some (a, b) \<and> temp a \<le> t \<and> t < temp b
           \<and> (noOverflowTemp (temp a) \<and> noOverflowTemp (temp b) \<longrightarrow> 0 < sub64 (temp b) (temp a)))"
  proof
    assume "points prof \<noteq> [] \<and> temp (hd (points prof)) \<le> t \<and> t < temp (last (points prof))"
    then obtain a b where seg: "firstSegment t (points prof) = Some (a, b)"
      using firstSegment_exists [of "points prof" t] by blast
    then have "temp a \<le> t \<and> t < temp b"
      by (rule firstSegment_Some)
    moreover from this
    have "noOverflowTemp (temp a) \<and> noOverflowTemp (temp b) \<longrightarrow> 0 < sub64 (temp b) (temp a)"
      by (simp add: sub64_small)
    ultimately show "\<exists>a b. firstSegment t (points prof) = Some (a, b) \<and> temp a \<le> t \<and> t < temp b
           \<and> (noOverflowTemp (temp a) \<and> noOverflowTemp (temp b) \<longrightarrow> 0 < sub64 (temp b) (temp a))"
      using seg by blast
  qed
next
  show "sorted_wrt (\<lambda>a b. temp a < temp b) (points prof) \<longrightarrow>
        (\<forall>i j. Suc i < length (points prof) \<and> temp (points prof ! i) \<le> t
                  \<and> t < temp (points prof ! Suc i)
              \<and> Suc j < length (points prof) \<and> temp (points prof ! j) \<le> t
                  \<and> t < temp (points prof ! Suc j) \<longrightarrow> i = j)"
    using segment_unique [of "points prof" _ t] by blast
next
  show "speedOK (speed a) \<and> speedOK (speed b)
        \<and> noOverflowTemp (temp a) \<and> noOverflowTemp (temp b)
        \<and> temp a \<le> t \<and> t < temp b \<and> temp b - temp a < 2 ^ 43 \<longrightarrow>
        \<bar>floatInterpolation t a b - specInterpolation t a b\<bar> \<le> 1
        \<and> (frac (exactInterpolation t a b) \<noteq> 1 / 2 \<longrightarrow>
             floatInterpolation t a b = specInterpolation t a b)"
  proof (intro impI conjI)
    assume h: "speedOK (speed a) \<and> speedOK (speed b)
        \<and> noOverflowTemp (temp a) \<and> noOverflowTemp (temp b)
        \<and> temp a \<le> t \<and> t < temp b \<and> temp b - temp a < 2 ^ 43"
    then have "temp b - temp a < 2 ^ 53"
      by simp
    with h show "\<bar>floatInterpolation t a b - specInterpolation t a b\<bar> \<le> 1"
      by (intro floatInterpolation_within_one) simp_all
    assume "frac (exactInterpolation t a b) \<noteq> 1 / 2"
    with h show "floatInterpolation t a b = specInterpolation t a b"
      by (intro floatInterpolation_exact_off_ties) simp_all
  qed
next
  show "curveSpeedForTempWithProfile 50 readme_profile = (55, 3)"
    by code_simp
  show "curveSpeedForTempWithProfile 39 readme_profile = (30, 3)"
    by code_simp
  show "curveSpeedForTempWithProfile 150 readme_profile = (100, 0)"
    by code_simp
qed

text \<open>
  The witness is the ramp from \<open>(40, 0)\<close> to \<open>(80, 100)\<close> at 50 degrees: the rules give the
  pair and the speed 25, the exact value 25 is not half-way between two integers, and the
  exactly rounded interpolation is 25 as well.
\<close>

theorem curveSpeedForTempWithProfile_rules_witness:
  "firstSegment 50 (points ramp_profile) =
     Some (\<lparr>temp = 40, speed = 0, hyst = 3\<rparr>, \<lparr>temp = 80, speed = 100, hyst = 0\<rparr>)
   \<and> 0 < sub64 80 40
   \<and> curveSpeedForTempWithProfile 50 ramp_profile = (25, 3)
   \<and> speedOK 0 \<and> speedOK 100 \<and> noOverflowTemp 40 \<and> noOverflowTemp 80
   \<and> (80::int) - 40 < 2 ^ 43
   \<and> frac (exactInterpolation 50 \<lparr>temp = 40, speed = 0, hyst = 3\<rparr>
        \<lparr>temp = 80, speed = 100, hyst = 0\<rparr>) \<noteq> 1 / 2
   \<and> specInterpolation 50 \<lparr>temp = 40, speed = 0, hyst = 3\<rparr>
        \<lparr>temp = 80, speed = 100, hyst = 0\<rparr> = 25"
proof -
  have pts: "points ramp_profile =
      [\<lparr>temp = 40, speed = 0, hyst = 3\<rparr>, \<lparr>temp = 80, speed = 100, hyst = 0\<rparr>]"
    and fl: "floorEndTemp ramp_profile = 40"
    by (simp_all add: ramp_profile_def buildCurveProfileFromRanges_def ramp_ranges_def
        SliceStable_def rangeLess_def pointLess_def clampInt_def)
  have seg: "firstSegment 50 (points ramp_profile) =
     Some (\<lparr>temp = 40, speed = 0, hyst = 3\<rparr>, \<lparr>temp = 80, speed = 100, hyst = 0\<rparr>)"
    by (simp add: pts firstSegment_def)
  have den: "0 < sub64 80 40"
    by (simp add: sub64_def wrap64_def)
  have fi: "floatInterpolation 50 \<lparr>temp = 40, speed = 0, hyst = 3\<rparr>
      \<lparr>temp = 80, speed = 100, hyst = 0\<rparr> = 25"
    by code_simp
  note inst = curveSpeedForTempWithProfile_rules [of 50 ramp_profile
      "\<lparr>temp = 40, speed = 0, hyst = 3\<rparr>" "\<lparr>temp = 80, speed = 100, hyst = 0\<rparr>"]
  have ok: "speedOK 0" "speedOK 100" "noOverflowTemp 40" "noOverflowTemp 80"
    by (simp_all add: speedOK_def noOverflowTemp_def)
  have nt: "frac (exactInterpolation 50 \<lparr>temp = 40, speed = 0, hyst = 3\<rparr>
        \<lparr>temp = 80, speed = 100, hyst = 0\<rparr>) \<noteq> 1 / 2"
    by (simp add: exactInterpolation_def frac_def)
  from inst ok nt
  have "floatInterpolation 50 \<lparr>temp = 40, speed = 0, hyst = 3\<rparr>
        \<lparr>temp = 80, speed = 100, hyst = 0\<rparr>
      = specInterpolation 50 \<lparr>temp = 40, speed = 0, hyst = 3\<rparr>
        \<lparr>temp = 80, speed = 100, hyst = 0\<rparr>"
    by simp
  then have si: "specInterpolation 50 \<lparr>temp = 40, speed = 0, hyst = 3\<rparr>
        \<lparr>temp = 80, speed = 100, hyst = 0\<rparr> = 25"
    by (simp only: fi)
  from inst
  have "curveSpeedForTempWithProfile 50 ramp_profile =
     (if 50 < floorEndTemp ramp_profile \<or> points ramp_profile = []
          \<or> 50 < temp (hd (points ramp_profile))
        then (floorSpeed ramp_profile, floorHyst ramp_profile)
      else if temp (last (points ramp_profile)) \<le> 50
        then (speed (last (points ramp_profile)), hyst (last (points ramp_profile)))
      else case firstSegment 50 (points ramp_profile) of
          Some (a, b) \<Rightarrow>
            if 0 < sub64 (temp b) (temp a) then (floatInterpolation 50 a b, hyst a)
            else (speed a, hyst a)
        | None \<Rightarrow> (speed (last (points ramp_profile)), hyst (last (points ramp_profile))))"
    by (rule conjunct1)
  then have "curveSpeedForTempWithProfile 50 ramp_profile = (25, 3)"
    by (simp add: seg fl den fi) (simp add: pts)
  with seg den ok nt si show ?thesis by simp
qed

text \<open>
  The claim as stated fails: between the setpoints \<open>(40, 0)\<close> and \<open>(80, 100)\<close> at 63
  degrees the exact interpolation is \<open>57.5\<close>, which rounds to 58 (halves away from zero,
  and halves to even as well). In \<^verbatim>\<open>float64\<close> the quotient \<open>23 / 40\<close> is rounded down,
  the product with 100 is \<open>57.49999999999999\<close>, and the program returns 57.
\<close>

theorem float64_interpolation_counterexample:
  "firstSegment 63 (points ramp_profile) =
     Some (\<lparr>temp = 40, speed = 0, hyst = 3\<rparr>, \<lparr>temp = 80, speed = 100, hyst = 0\<rparr>)
   \<and> exactInterpolation 63 \<lparr>temp = 40, speed = 0, hyst = 3\<rparr>
        \<lparr>temp = 80, speed = 100, hyst = 0\<rparr> = 115 / 2
   \<and> specInterpolation 63 \<lparr>temp = 40, speed = 0, hyst = 3\<rparr>
        \<lparr>temp = 80, speed = 100, hyst = 0\<rparr> = 58
   \<and> specInterpolationEven 63 \<lparr>temp = 40, speed = 0, hyst = 3\<rparr>
        \<lparr>temp = 80, speed = 100, hyst = 0\<rparr> = 58
   \<and> fmul (fdiv (float64 23) (float64 40)) (float64 100) = 8092405580431359 / 140737488355328
   \<and> curveSpeedForTempWithProfile 63 ramp_profile = (57, 3)"
  by code_simp

section \<open>Properties of the monitoring loop\<close>

subsection \<open>The fan loops\<close>


lemma sliceGet_Some: "i < length xs \<Longrightarrow> sliceGet xs i = Some (xs ! i)"
  by (simp add: sliceGet_def)

lemma sliceSet_Some: "i < length xs \<Longrightarrow> sliceSet xs i v = Some (xs[i := v])"
  by (simp add: sliceSet_def)

lemma autoLoop:
  "forIndices (autoFanBody i) ks s =
     Some (s\<lparr>issued := issued s @
        map (\<lambda>f. DeviceSetFanControlPolicy i f FAN_POLICY_TEMPERATURE_CONTINOUS_SW) ks\<rparr>)"
  by (induction ks arbitrary: s) (simp_all add: autoFanBody_def)

lemma fanFrame_refl: "fanFrame i later s s"
  by (simp add: fanFrame_def)

lemma fanFrame_trans:
  "fanFrame i later s s' \<Longrightarrow> fanFrame i later' s' s'' \<Longrightarrow> later' \<subseteq> later \<Longrightarrow>
   fanFrame i later' s s''"
  by (auto simp: fanFrame_def)

lemma manualFanBody_step:
  assumes "i < length (prevFanSpeeds s)" "f < length (prevFanSpeeds s ! i)"
    and "i < length (lastFanChangeTemp s)"
  shows "\<exists>s' any'. manualFanBody hw prof i t f (s, any) = Some (s', any')
     \<and> fanFrame i (- {f}) s s'
     \<and> issued s' = issued s @
          manualFanWrites hw prof i t (lastFanChangeTemp s ! i) (prevFanSpeeds s ! i ! f) f
     \<and> (fst (curveSpeedForTempWithProfile t prof) = prevFanSpeeds s ! i ! f \<longrightarrow>
          prevFanSpeeds s' = prevFanSpeeds s)"
  using assms
  by (cases "curveSpeedForTempWithProfile t prof")
     (auto simp: manualFanBody_def manualFanWrites_def sliceGet_Some sliceSet_Some Let_def
        fanFrame_def nth_list_update)


lemma manualLoop:
  assumes "distinct ks" "\<forall>f \<in> set ks. f < length (prevFanSpeeds s ! i)"
    and "i < length (prevFanSpeeds s)" "i < length (lastFanChangeTemp s)"
  shows "\<exists>s' any'. forIndices (manualFanBody hw prof i t) ks (s, any) = Some (s', any')
     \<and> fanFrame i (- set ks) s s'
     \<and> issued s' = issued s @
          concat (map (\<lambda>f. manualFanWrites hw prof i t (lastFanChangeTemp s ! i)
                              (prevFanSpeeds s ! i ! f) f) ks)"
  using assms
proof (induction ks arbitrary: s any)
  case Nil
  then show ?case by (simp add: fanFrame_refl)
next
  case (Cons f ks)
  from Cons.prems manualFanBody_step [of i s f hw prof t any]
  obtain s1 any1 where 1: "manualFanBody hw prof i t f (s, any) = Some (s1, any1)"
    and fr1: "fanFrame i (- {f}) s s1"
    and is1: "issued s1 = issued s @
          manualFanWrites hw prof i t (lastFanChangeTemp s ! i) (prevFanSpeeds s ! i ! f) f"
    by auto
  have pre: "distinct ks" "\<forall>g \<in> set ks. g < length (prevFanSpeeds s1 ! i)"
    "i < length (prevFanSpeeds s1)" "i < length (lastFanChangeTemp s1)"
    using Cons.prems fr1 by (auto simp: fanFrame_def)
  from Cons.IH [OF pre, of any1]
  obtain s2 any2 where 2: "forIndices (manualFanBody hw prof i t) ks (s1, any1) = Some (s2, any2)"
    and fr2: "fanFrame i (- set ks) s1 s2"
    and is2: "issued s2 = issued s1 @
          concat (map (\<lambda>f. manualFanWrites hw prof i t (lastFanChangeTemp s1 ! i)
                              (prevFanSpeeds s1 ! i ! f) f) ks)"
    by auto
  have same: "\<forall>g \<in> set ks. prevFanSpeeds s1 ! i ! g = prevFanSpeeds s ! i ! g"
    using fr1 Cons.prems(1) by (auto simp: fanFrame_def)
  have lc: "lastFanChangeTemp s1 = lastFanChangeTemp s"
    using fr1 by (simp add: fanFrame_def)
  have "fanFrame i (- set (f # ks)) s s2"
    using fr1 fr2 by (auto simp: fanFrame_def)
  moreover have "issued s2 = issued s @
          concat (map (\<lambda>f. manualFanWrites hw prof i t (lastFanChangeTemp s ! i)
                              (prevFanSpeeds s ! i ! f) f) (f # ks))"
    using is1 is2 same lc by (simp cong: map_cong)
  ultimately show ?case
    using 1 2 by simp
qed


lemma wfLoop_D:
  assumes "wfLoop count fanCounts s" "i < count"
  shows "i < length fanCounts" "i < length (prevTemps s)" "i < length (prevFanSpeeds s)"
    "i < length (inAuto s)" "i < length (lastFanChangeTemp s)"
    "nat (fanCounts ! i) \<le> length (prevFanSpeeds s ! i)"
  using assms by (auto simp: wfLoop_def list_all_iff)

lemma wfLoop_fanFrame:
  assumes "wfLoop count fanCounts s" "fanFrame i later s s'"
  shows "wfLoop count fanCounts s'"
  using assms by (auto simp: wfLoop_def fanFrame_def list_all_iff)

lemma wfLoop_update:
  assumes "wfLoop count fanCounts s"
    and "length a = length (prevTemps s)" "length b = length (inAuto s)"
    and "length c = length (lastFanChangeTemp s)"
  shows "wfLoop count fanCounts (s\<lparr>prevTemps := a, inAuto := b, lastFanChangeTemp := c, issued := d\<rparr>)"
  using assms by (auto simp: wfLoop_def)

subsection \<open>One device in one tick\<close>

text \<open>What a tick does to device \<open>i\<close>: skipped, in AUTO, in MANUAL, and in step mode.\<close>

lemma tickDevice_skipped:
  assumes "i < length fanCounts"
    and "fanCounts ! i = 0 \<or> DeviceGetHandleByIndex hw i \<noteq> SUCCESS
          \<or> snd (DeviceGetTemperature hw i) \<noteq> SUCCESS"
  shows "tickDevice uc prof config fanCounts hw i s = Some s"
  using assms by (auto simp: tickDevice_def sliceGet_Some)

lemma tickDevice_auto:
  assumes wf: "wfLoop count fanCounts s" and i: "i < count"
    and ok: "fanCounts ! i \<noteq> 0" "DeviceGetHandleByIndex hw i = SUCCESS"
      "snd (DeviceGetTemperature hw i) = SUCCESS"
    and auto: "decideAuto prof (inAuto s ! i) (uint (fst (DeviceGetTemperature hw i)))"
  shows "tickDevice True prof config fanCounts hw i s =
     Some (s\<lparr>inAuto := (inAuto s)[i := True],
             issued := issued s @
               map (\<lambda>f. DeviceSetFanControlPolicy i f FAN_POLICY_TEMPERATURE_CONTINOUS_SW)
                 [0..<nat (fanCounts ! i)],
             lastFanChangeTemp := (lastFanChangeTemp s)[i := uint (fst (DeviceGetTemperature hw i))],
             prevTemps := (prevTemps s)[i := uint (fst (DeviceGetTemperature hw i))]\<rparr>)"
  using wfLoop_D [OF wf i] ok auto
  by (simp add: tickDevice_def sliceGet_Some sliceSet_Some Let_def autoLoop)

lemma tickDevice_manual:
  assumes wf: "wfLoop count fanCounts s" and i: "i < count"
    and ok: "fanCounts ! i \<noteq> 0" "DeviceGetHandleByIndex hw i = SUCCESS"
      "snd (DeviceGetTemperature hw i) = SUCCESS"
    and manual: "\<not> decideAuto prof (inAuto s ! i) (uint (fst (DeviceGetTemperature hw i)))"
  shows "\<exists>s'. tickDevice True prof config fanCounts hw i s = Some s'
     \<and> wfLoop count fanCounts s'
     \<and> inAuto s' = (inAuto s)[i := False]
     \<and> prevTemps s' = (prevTemps s)[i := uint (fst (DeviceGetTemperature hw i))]
     \<and> issued s' = issued s @
          concat (map (\<lambda>f. manualFanWrites hw prof i (uint (fst (DeviceGetTemperature hw i)))
                              (lastFanChangeTemp s ! i) (prevFanSpeeds s ! i ! f) f)
                    [0..<nat (fanCounts ! i)])"
proof -
  let ?t = "uint (fst (DeviceGetTemperature hw i))"
  let ?s1 = "s\<lparr>inAuto := (inAuto s)[i := False]\<rparr>"
  note d = wfLoop_D [OF wf i]
  have wf1: "wfLoop count fanCounts ?s1"
    using wf by (simp add: wfLoop_def)
  from manualLoop [of "[0..<nat (fanCounts ! i)]" ?s1 i hw prof ?t False] d
  obtain s2 any2 where loop: "forIndices (manualFanBody hw prof i ?t) [0..<nat (fanCounts ! i)] (?s1, False)
        = Some (s2, any2)"
    and fr: "fanFrame i (- set [0..<nat (fanCounts ! i)]) ?s1 s2"
    and iss: "issued s2 = issued s @
          concat (map (\<lambda>f. manualFanWrites hw prof i ?t (lastFanChangeTemp s ! i)
                              (prevFanSpeeds s ! i ! f) f) [0..<nat (fanCounts ! i)])"
    by auto
  have wf2: "wfLoop count fanCounts s2"
    by (rule wfLoop_fanFrame [OF wf1 fr])
  note d2 = wfLoop_D [OF wf2 i]
  have eqs: "inAuto s2 = (inAuto s)[i := False]" "prevTemps s2 = prevTemps s"
    "lastFanChangeTemp s2 = lastFanChangeTemp s"
    using fr by (simp_all add: fanFrame_def)
  let ?changes = "if any2 then (lastFanChangeTemp s2)[i := ?t] else lastFanChangeTemp s2"
  let ?s' = "s2\<lparr>lastFanChangeTemp := ?changes, prevTemps := (prevTemps s2)[i := ?t]\<rparr>"
  have res: "tickDevice True prof config fanCounts hw i s = Some ?s'"
    using d d2 ok manual loop
    by (simp add: tickDevice_def sliceGet_Some sliceSet_Some Let_def)
  have "wfLoop count fanCounts ?s'"
    using wf2 by (simp add: wfLoop_def)
  with res iss eqs show ?thesis by simp
qed


lemma no_writes_for_fan:
  assumes "\<forall>g \<in> set ks. g = f \<longrightarrow> W g = []" "\<forall>g \<in> set ks. \<forall>w \<in> set (W g). writeFan w = g"
  shows "\<forall>w \<in> set (concat (map W ks)). writeFan w \<noteq> f"
  using assms by auto



subsection \<open>The mode state machine\<close>


lemma decideAuto_eq:
  "decideAuto prof wasAuto t =
     (if wasAuto then \<not> t \<ge> add64 (floorEndTemp prof) (floorHyst prof)
      else t \<le> sub64 (floorEndTemp prof) (floorHyst prof))"
  by (simp add: decideAuto_def)

lemma readme_profile_fields:
  "floorEndTemp readme_profile = 40" "floorHyst readme_profile = 3"
  by (simp_all add: readme_profile_def readme_profile_value)

lemma wf_oneFanState: "wfLoop 1 [1] (oneFanState a t sp)"
  by (simp add: wfLoop_def oneFanState_def)

lemma tickDevice_inAuto:
  assumes wf: "wfLoop count fanCounts s" and i: "i < count"
    and ok: "fanCounts ! i \<noteq> 0" "DeviceGetHandleByIndex hw i = SUCCESS"
      "snd (DeviceGetTemperature hw i) = SUCCESS"
  shows "\<exists>s'. tickDevice True prof config fanCounts hw i s = Some s'
     \<and> inAuto s' = (inAuto s)[i := decideAuto prof (inAuto s ! i) (uint (fst (DeviceGetTemperature hw i)))]"
proof (cases "decideAuto prof (inAuto s ! i) (uint (fst (DeviceGetTemperature hw i)))")
  case True
  with tickDevice_auto [OF wf i ok] show ?thesis by simp
next
  case False
  with tickDevice_manual [OF wf i ok] show ?thesis by auto
qed

text \<open>
  Claim C3, as amended. In curve mode the initial state of a device is AUTO if and only
  if its initial temperature is strictly below \<open>floorEndTemp\<close>. In a tick that reads the
  temperature of a device with fans, a device in AUTO goes to MANUAL if and only if
  \<open>temp\<close> is at least the 64-bit wrapping sum of \<open>floorEndTemp\<close> and \<open>floorHyst\<close>, a device
  in MANUAL goes to AUTO if and only if \<open>temp\<close> is at most their 64-bit wrapping
  difference, and otherwise the mode is unchanged; the modes of the other devices are
  untouched. When neither \<open>floorEndTemp + floorHyst\<close> nor \<open>floorEndTemp - floorHyst\<close>
  overflows, the thresholds are the mathematical ones, \<open>temp \<ge> floorEndTemp + floorHyst\<close>
  and \<open>temp \<le> floorEndTemp - floorHyst\<close>. With \<open>floorEndTemp = 40\<close> and \<open>floorHyst = 3\<close>:
  from AUTO the mode stays AUTO at 42 and becomes MANUAL at 43; from MANUAL it stays
  MANUAL at 38 and becomes AUTO at 37.
\<close>

theorem mode_state_machine:
  "(setupMonitoring config count prevTemps0 prevFanSpeeds0 = Some m \<and> i < count \<longrightarrow>
      inAuto (mState m) ! i = (prevTemps0 ! i < floorEndTemp (mProf m)))
   \<and> (wfLoop count fanCounts s \<and> i < count \<and> fanCounts ! i \<noteq> 0
        \<and> DeviceGetHandleByIndex hw i = SUCCESS \<and> snd (DeviceGetTemperature hw i) = SUCCESS \<longrightarrow>
      (\<exists>s'. tickDevice True prof config fanCounts hw i s = Some s'
         \<and> inAuto s' ! i =
             (if inAuto s ! i
              then \<not> uint (fst (DeviceGetTemperature hw i)) \<ge> add64 (floorEndTemp prof) (floorHyst prof)
              else uint (fst (DeviceGetTemperature hw i)) \<le> sub64 (floorEndTemp prof) (floorHyst prof))
         \<and> (is_int64 (floorEndTemp prof + floorHyst prof)
              \<and> is_int64 (floorEndTemp prof - floorHyst prof) \<longrightarrow>
             inAuto s' ! i =
               (if inAuto s ! i
                then \<not> uint (fst (DeviceGetTemperature hw i)) \<ge> floorEndTemp prof + floorHyst prof
                else uint (fst (DeviceGetTemperature hw i)) \<le> floorEndTemp prof - floorHyst prof))
         \<and> (\<forall>j. j \<noteq> i \<longrightarrow> inAuto s' ! j = inAuto s ! j)))
   \<and> floorEndTemp readme_profile = 40 \<and> floorHyst readme_profile = 3
   \<and> map_option inAuto (tickDevice True readme_profile readme_config [1] (allSucceed 42) 0
        (oneFanState True 20 30)) = Some [True]
   \<and> map_option inAuto (tickDevice True readme_profile readme_config [1] (allSucceed 43) 0
        (oneFanState True 20 30)) = Some [False]
   \<and> map_option inAuto (tickDevice True readme_profile readme_config [1] (allSucceed 38) 0
        (oneFanState False 50 40)) = Some [False]
   \<and> map_option inAuto (tickDevice True readme_profile readme_config [1] (allSucceed 37) 0
        (oneFanState False 50 40)) = Some [True]"
proof (intro conjI impI)
  assume "setupMonitoring config count prevTemps0 prevFanSpeeds0 = Some m \<and> i < count"
  then show "inAuto (mState m) ! i = (prevTemps0 ! i < floorEndTemp (mProf m))"
    by (auto simp: setupMonitoring_def Let_def split: if_splits option.splits)
next
  assume a: "wfLoop count fanCounts s \<and> i < count \<and> fanCounts ! i \<noteq> 0
        \<and> DeviceGetHandleByIndex hw i = SUCCESS \<and> snd (DeviceGetTemperature hw i) = SUCCESS"
  let ?t = "uint (fst (DeviceGetTemperature hw i))"
  from a tickDevice_inAuto [of count fanCounts s i hw prof config]
  obtain s' where res: "tickDevice True prof config fanCounts hw i s = Some s'"
    and mode: "inAuto s' = (inAuto s)[i := decideAuto prof (inAuto s ! i) ?t]"
    by auto
  from a have len: "i < length (inAuto s)"
    by (simp add: wfLoop_def)
  have 1: "inAuto s' ! i =
             (if inAuto s ! i then \<not> ?t \<ge> add64 (floorEndTemp prof) (floorHyst prof)
              else ?t \<le> sub64 (floorEndTemp prof) (floorHyst prof))"
    using len by (simp add: mode decideAuto_eq)
  have 2: "is_int64 (floorEndTemp prof + floorHyst prof)
              \<and> is_int64 (floorEndTemp prof - floorHyst prof) \<longrightarrow>
             inAuto s' ! i =
               (if inAuto s ! i then \<not> ?t \<ge> floorEndTemp prof + floorHyst prof
                else ?t \<le> floorEndTemp prof - floorHyst prof)"
    using 1 by (simp add: add64_def sub64_def wrap64_id)
  have 3: "\<forall>j. j \<noteq> i \<longrightarrow> inAuto s' ! j = inAuto s ! j"
    by (simp add: mode)
  from res 1 2 3
  show "\<exists>s'. tickDevice True prof config fanCounts hw i s = Some s'
         \<and> inAuto s' ! i =
             (if inAuto s ! i
              then \<not> ?t \<ge> add64 (floorEndTemp prof) (floorHyst prof)
              else ?t \<le> sub64 (floorEndTemp prof) (floorHyst prof))
         \<and> (is_int64 (floorEndTemp prof + floorHyst prof)
              \<and> is_int64 (floorEndTemp prof - floorHyst prof) \<longrightarrow>
             inAuto s' ! i =
               (if inAuto s ! i
                then \<not> ?t \<ge> floorEndTemp prof + floorHyst prof
                else ?t \<le> floorEndTemp prof - floorHyst prof))
         \<and> (\<forall>j. j \<noteq> i \<longrightarrow> inAuto s' ! j = inAuto s ! j)"
    by blast
next
  show "floorEndTemp readme_profile = 40" "floorHyst readme_profile = 3"
    by (simp_all add: readme_profile_fields)
next
  have ex: "map_option inAuto (tickDevice True readme_profile readme_config [1] (allSucceed w) 0
        (oneFanState a lt sp)) = Some [decideAuto readme_profile a (uint w)]" for w a lt sp
  proof -
    have "\<exists>s'. tickDevice True readme_profile readme_config [1] (allSucceed w) 0
            (oneFanState a lt sp) = Some s'
          \<and> inAuto s' = (inAuto (oneFanState a lt sp))
              [0 := decideAuto readme_profile (inAuto (oneFanState a lt sp) ! 0)
                      (uint (fst (DeviceGetTemperature (allSucceed w) 0)))]"
      by (rule tickDevice_inAuto [OF wf_oneFanState]) (simp_all add: allSucceed_def)
    then show ?thesis
      by (auto simp: allSucceed_def oneFanState_def)
  qed
  show "map_option inAuto (tickDevice True readme_profile readme_config [1] (allSucceed 42) 0
        (oneFanState True 20 30)) = Some [True]"
    by (simp add: ex decideAuto_eq readme_profile_fields add64_def wrap64_def)
  show "map_option inAuto (tickDevice True readme_profile readme_config [1] (allSucceed 43) 0
        (oneFanState True 20 30)) = Some [False]"
    by (simp add: ex decideAuto_eq readme_profile_fields add64_def wrap64_def)
  show "map_option inAuto (tickDevice True readme_profile readme_config [1] (allSucceed 38) 0
        (oneFanState False 50 40)) = Some [False]"
    by (simp add: ex decideAuto_eq readme_profile_fields sub64_def wrap64_def)
  show "map_option inAuto (tickDevice True readme_profile readme_config [1] (allSucceed 37) 0
        (oneFanState False 50 40)) = Some [True]"
    by (simp add: ex decideAuto_eq readme_profile_fields sub64_def wrap64_def)
qed


text \<open>
  The witness is the profile of the README with one device and one fan: the device starts
  in AUTO at 20 degrees, neither \<open>40 + 3\<close> nor \<open>40 - 3\<close> overflows, and the tick at 43
  degrees takes it to MANUAL.
\<close>

theorem mode_state_machine_witness:
  "(\<exists>m. setupMonitoring readme_config 1 [20] [[30]] = Some m \<and> inAuto (mState m) ! 0 = True)
   \<and> wfLoop 1 [1] (oneFanState True 20 30)
   \<and> is_int64 (floorEndTemp readme_profile + floorHyst readme_profile)
   \<and> is_int64 (floorEndTemp readme_profile - floorHyst readme_profile)
   \<and> (\<exists>s'. tickDevice True readme_profile readme_config [1] (allSucceed 43) 0
          (oneFanState True 20 30) = Some s' \<and> inAuto s' ! 0 = False)"
proof -
  obtain m where su: "setupMonitoring readme_config 1 [20] [[30]] = Some m"
    and fl: "floorEndTemp (mProf m) = 40"
    by (simp add: setupMonitoring_def Let_def readme_config_def readme_profile_value
        NewTicker_def tickerInterval_def time_Second_def mul64_def wrap64_def)
  note inst = mode_state_machine [where config = readme_config and count = 1
      and ?prevTemps0.0 = "[20]" and ?prevFanSpeeds0.0 = "[[30]]"
      and m = m and i = 0
      and fanCounts = "[1]" and s = "oneFanState True 20 30" and hw = "allSucceed 43"
      and prof = readme_profile]
  from inst su
  have "inAuto (mState m) ! 0 = ([20] ! 0 < floorEndTemp (mProf m))"
    by simp
  then have "inAuto (mState m) ! 0 = True"
    by (simp add: fl)
  with su have 1: "\<exists>m. setupMonitoring readme_config 1 [20] [[30]] = Some m
      \<and> inAuto (mState m) ! 0 = True"
    by blast
  have 2: "wfLoop 1 [1] (oneFanState True 20 30)"
    by (rule wf_oneFanState)
  have hyp: "wfLoop 1 [1] (oneFanState True 20 30) \<and> (0::nat) < 1 \<and> [1] ! 0 \<noteq> (0::int)
      \<and> DeviceGetHandleByIndex (allSucceed 43) 0 = SUCCESS
      \<and> snd (DeviceGetTemperature (allSucceed 43) 0) = SUCCESS"
    using 2 by (simp add: allSucceed_def)
  have fits: "is_int64 (floorEndTemp readme_profile + floorHyst readme_profile)
      \<and> is_int64 (floorEndTemp readme_profile - floorHyst readme_profile)"
    by (simp add: readme_profile_fields is_int64_def)
  from inst hyp
  obtain s' where res: "tickDevice True readme_profile readme_config [1] (allSucceed 43) 0
          (oneFanState True 20 30) = Some s'"
    and math: "is_int64 (floorEndTemp readme_profile + floorHyst readme_profile)
        \<and> is_int64 (floorEndTemp readme_profile - floorHyst readme_profile) \<longrightarrow>
       inAuto s' ! 0 =
       (if inAuto (oneFanState True 20 30) ! 0
        then \<not> uint (fst (DeviceGetTemperature (allSucceed 43) 0))
               \<ge> floorEndTemp readme_profile + floorHyst readme_profile
        else uint (fst (DeviceGetTemperature (allSucceed 43) 0))
               \<le> floorEndTemp readme_profile - floorHyst readme_profile)"
    by blast
  from math fits
  have "inAuto s' ! 0 =
       (if inAuto (oneFanState True 20 30) ! 0
        then \<not> uint (fst (DeviceGetTemperature (allSucceed 43) 0))
               \<ge> floorEndTemp readme_profile + floorHyst readme_profile
        else uint (fst (DeviceGetTemperature (allSucceed 43) 0))
               \<le> floorEndTemp readme_profile - floorHyst readme_profile)"
    by blast
  then have "inAuto s' ! 0 = False"
    by (simp add: oneFanState_def allSucceed_def readme_profile_fields)
  with res have 3: "\<exists>s'. tickDevice True readme_profile readme_config [1] (allSucceed 43) 0
          (oneFanState True 20 30) = Some s' \<and> inAuto s' ! 0 = False"
    by blast
  from 1 2 fits 3 show ?thesis by simp
qed

text \<open>
  The claim as stated fails when the sum overflows. With a floor range that ends at
  \<open>2^63 - 1\<close> and hysteresis 1 the device starts in AUTO at 20 degrees; the program's
  \<open>floorEndTemp + floorHyst\<close> is \<open>-2^63\<close>, so the tick at 25 degrees takes the device to
  MANUAL (a fan that ran at 40 percent is set to the floor speed), although 25 is below
  \<open>floorEndTemp + floorHyst\<close>.
\<close>

theorem mode_threshold_overflow_counterexample:
  "floorEndTemp wide_floor_profile = 9223372036854775807
   \<and> floorHyst wide_floor_profile = 1
   \<and> map_option (\<lambda>m. (mUseCurve m, mProf m = wide_floor_profile, inAuto (mState m)))
        (setupMonitoring wide_floor_config 1 [20] [[40]]) = Some (True, True, [True])
   \<and> add64 (floorEndTemp wide_floor_profile) (floorHyst wide_floor_profile)
        = - 9223372036854775808
   \<and> 25 < floorEndTemp wide_floor_profile + floorHyst wide_floor_profile
   \<and> tickDevice True wide_floor_profile wide_floor_config [1] (allSucceed 25) 0
        (oneFanState True 20 40)
      = Some \<lparr>prevTemps = [25], prevFanSpeeds = [[30]], inAuto = [False],
               lastFanChangeTemp = [25],
               issued = [DeviceSetFanControlPolicy 0 0 FAN_POLICY_MANUAL,
                         DeviceSetFanSpeed_v2 0 0 30]\<rparr>"
  by code_simp

subsection \<open>The writes of a tick\<close>









section \<open>Properties of the commands\<close>

subsection \<open>Curve mode with no ranges\<close>




lemma step_no_ranges: "getFanSpeedForTemperature t prevTemp prevSpeed [] = prevSpeed"
  by simp




subsection \<open>Game mode\<close>

lemma tick_mode_of_one_fan:
  "map_option inAuto (tickDevice True readme_profile readme_config [1] (allSucceed w) 0
     (oneFanState a lt sp)) = Some [decideAuto readme_profile a (uint w)]"
proof -
  have "\<exists>s'. tickDevice True readme_profile readme_config [1] (allSucceed w) 0
          (oneFanState a lt sp) = Some s'
        \<and> inAuto s' = (inAuto (oneFanState a lt sp))
            [0 := decideAuto readme_profile (inAuto (oneFanState a lt sp) ! 0)
                    (uint (fst (DeviceGetTemperature (allSucceed w) 0)))]"
    by (rule tickDevice_inAuto [OF wf_oneFanState]) (simp_all add: allSucceed_def)
  then show ?thesis
    by (auto simp: allSucceed_def oneFanState_def)
qed

text \<open>
  Claim C5 says that a \<^verbatim>\<open>gamemode\<close> subcommand sets a latch under which MANUAL never
  reverts to AUTO. The program has neither: \<^verbatim>\<open>main\<close> sends \<^verbatim>\<open>gamemode on\<close>,
  \<^verbatim>\<open>gamemode off\<close> and \<^verbatim>\<open>gamemode status\<close> to the usage text and exit code 2, and the
  monitoring loop has no latch among its variables, so a device in MANUAL at 37 degrees
  (\<open>floorEndTemp - floorHyst\<close>) goes back to AUTO.
\<close>

theorem gamemode_is_not_a_subcommand:
  "main_switch [''nvidia_fan_control'', ''gamemode'', ''on''] = PrintUsageExit2
   \<and> main_switch [''nvidia_fan_control'', ''gamemode'', ''off''] = PrintUsageExit2
   \<and> main_switch [''nvidia_fan_control'', ''gamemode'', ''status''] = PrintUsageExit2
   \<and> map_option inAuto (tickDevice True readme_profile readme_config [1] (allSucceed 37) 0
        (oneFanState False 50 40)) = Some [True]"
proof -
  have "map_option inAuto (tickDevice True readme_profile readme_config [1] (allSucceed 37) 0
        (oneFanState False 50 40)) = Some [True]"
    by (simp add: tick_mode_of_one_fan decideAuto_eq readme_profile_fields sub64_def wrap64_def)
  then show ?thesis
    by (simp add: main_switch_def)
qed

subsection \<open>The set command\<close>

lemma cmdSet_rejects: "percent < 0 \<or> percent > 100 \<Longrightarrow> cmdSet hw gpuIdx fans percent verbose = (1, [])"
  by (simp add: cmdSet_def)

text \<open>
  Claim C7, as amended. For the \<^verbatim>\<open>set\<close> command every \<^verbatim>\<open>-speed\<close> value outside \<open>[0,100]\<close>
  is rejected before any NVML call is made. The exit code is 2 when the value is
  negative (reported as a missing \<^verbatim>\<open>-speed\<close>) or when the fan list does not parse, and 1
  when the value is above 100 and the fan list parses (the range check of \<^verbatim>\<open>cmdSet\<close>).
\<close>

theorem set_speed_out_of_range_rejected:
  "flag_speed flags < 0 \<or> flag_speed flags > 100 \<longrightarrow>
     snd (main_set TrimSpace Atoi hw (Some flags)) = []
     \<and> fst (main_set TrimSpace Atoi hw (Some flags)) =
         (if flag_speed flags < 0 then 2
          else case parseFanList TrimSpace Atoi (flag_fans flags) of Inl err \<Rightarrow> 2 | Inr fans \<Rightarrow> 1)"
  by (auto simp: main_set_def cmdSet_rejects split: sum.splits)

lemma parse_fans_0: "parseFanList trim_none atoi_digits ''0'' = Inr [0]"
  by (simp add: parseFanList_def trim_none_def atoi_digits_def digit_value_def Let_def)

theorem set_speed_out_of_range_rejected_witness:
  "main_set trim_none atoi_digits cli_ok
     (Some \<lparr>flag_gpu = 0, flag_fans = ''0'', flag_speed = 150, flag_v = False\<rparr>) = (1, [])
   \<and> main_set trim_none atoi_digits cli_ok
     (Some \<lparr>flag_gpu = 0, flag_fans = ''0'', flag_speed = - 1, flag_v = False\<rparr>) = (2, [])"
proof -
  have 1: "main_set trim_none atoi_digits cli_ok
     (Some \<lparr>flag_gpu = 0, flag_fans = ''0'', flag_speed = 150, flag_v = False\<rparr>) = (1, [])"
    using set_speed_out_of_range_rejected [of "\<lparr>flag_gpu = 0, flag_fans = ''0'', flag_speed = 150,
      flag_v = False\<rparr>" trim_none atoi_digits cli_ok]
    by (simp add: parse_fans_0 prod_eq_iff)
  have 2: "main_set trim_none atoi_digits cli_ok
     (Some \<lparr>flag_gpu = 0, flag_fans = ''0'', flag_speed = - 1, flag_v = False\<rparr>) = (2, [])"
    using set_speed_out_of_range_rejected [of "\<lparr>flag_gpu = 0, flag_fans = ''0'', flag_speed = - 1,
      flag_v = False\<rparr>" trim_none atoi_digits cli_ok]
    by (simp add: prod_eq_iff)
  from 1 2 show ?thesis by simp
qed

text \<open>
  The claim as stated fails: \<^verbatim>\<open>set -speed 101\<close> makes no NVML call but exits with code
  1, not 2 (\<^verbatim>\<open>set -speed 100\<close> is shown for comparison).
\<close>

theorem set_speed_101_exits_with_1_counterexample:
  "main_set trim_none atoi_digits cli_ok
     (Some \<lparr>flag_gpu = 0, flag_fans = ''0'', flag_speed = 101, flag_v = False\<rparr>) = (1, [])
   \<and> main_set trim_none atoi_digits cli_ok
     (Some \<lparr>flag_gpu = 0, flag_fans = ''0'', flag_speed = 100, flag_v = False\<rparr>) =
       (0, [Call_Init, Call_DeviceGetCount, Call_DeviceGetHandleByIndex 0, Call_DeviceGetNumFans 0,
            Call_DeviceSetFanControlPolicy 0 0 FAN_POLICY_MANUAL, Call_DeviceSetFanSpeed_v2 0 0 100,
            Call_Shutdown])"
  by (simp add: main_set_def parse_fans_0 cmdSet_def cli_ok_def)

end
